theory Spec2Isabelle
  imports Complex_Main "HOL-Library.AList"
begin

section \<open>Text of numbers\<close>

text \<open>\<^verbatim>\<open>str(n)\<close> of an integer, as the f-strings of the program print it.\<close>

fun str_nat :: "nat \<Rightarrow> string" where
  "str_nat n =
     (if n < 10 then [char_of (48 + n)]
      else str_nat (n div 10) @ [char_of (48 + n mod 10)])"

declare str_nat.simps [simp del]

definition str_int :: "int \<Rightarrow> string" where
  "str_int n = (if n < 0 then ''-'' @ str_nat (nat (- n)) else str_nat (nat n))"

text \<open>A string between single quotes, as Python prints the name of a type or a key.\<close>

definition quoted :: "string \<Rightarrow> string" where
  "quoted t = [CHR 0x27] @ t @ [CHR 0x27]"

section \<open>Python values and JSON documents\<close>

text \<open>
  The configuration of \<^verbatim>\<open>Rewards.py\<close> is a Python \<^verbatim>\<open>dict\<close> whose values are
  whatever \<^verbatim>\<open>json.load\<close> returns, plus the tuple of \<^verbatim>\<open>DEFAULT_CONFIG\<close>.

  A \<^verbatim>\<open>float\<close> is given by the number it is and by the text \<^verbatim>\<open>repr\<close> prints for it;
  the program compares it, tests it and prints it, and \<^verbatim>\<open>json\<close> writes that text and
  reads the same \<^verbatim>\<open>float\<close> back. The floats of the model are the finite ones: \<^verbatim>\<open>nan\<close>
  and the infinities, which are not JSON, are left out.

  A \<^verbatim>\<open>dict\<close> is an association list in insertion order. Its keys are the keys
  \<^verbatim>\<open>json.dump\<close> accepts (\<^verbatim>\<open>str\<close>, \<^verbatim>\<open>int\<close>, \<^verbatim>\<open>float\<close>, \<^verbatim>\<open>bool\<close>, \<^verbatim>\<open>None\<close>) and,
  as \<^verbatim>\<open>KOther\<close>, any key it rejects. \<^verbatim>\<open>POther\<close> stands for any object
  \<^verbatim>\<open>json.dump\<close> rejects. A Python \<^verbatim>\<open>str\<close> is a list of code points; the characters
  of this model are the code points below 256.
\<close>

datatype pykey =
    KStr string
  | KInt int
  | KFloat real string
  | KBool bool
  | KNone
  | KOther

datatype pyval =
    PNone
  | PBool bool
  | PInt int
  | PFloat real string
  | PStr string
  | PList "pyval list"
  | PTuple "pyval list"
  | PDict "(pykey \<times> pyval) list"
  | POther

text \<open>
  The configuration itself, \<^verbatim>\<open>DEFAULT_CONFIG\<close> and what is merged over it, has
  \<^verbatim>\<open>str\<close> keys only: it is kept as the list of its items.
\<close>

type_synonym pydict = "(string \<times> pyval) list"

text \<open>
  A JSON document, as \<^verbatim>\<open>json.load\<close> parses it: a number without fraction or exponent
  is an integer, any other number is the \<^verbatim>\<open>float\<close> it denotes.
\<close>

datatype json =
    JNull
  | JBool bool
  | JInt int
  | JFloat real string
  | JStr string
  | JArr "json list"
  | JObj "(string \<times> json) list"

text \<open>The name of the type of a value, as the message of a \<^verbatim>\<open>TypeError\<close> prints it.\<close>

fun type_name :: "pyval \<Rightarrow> string" where
  "type_name PNone = ''NoneType''"
| "type_name (PBool b) = ''bool''"
| "type_name (PInt n) = ''int''"
| "type_name (PFloat x r) = ''float''"
| "type_name (PStr s) = ''str''"
| "type_name (PList xs) = ''list''"
| "type_name (PTuple xs) = ''tuple''"
| "type_name (PDict kvs) = ''dict''"
| "type_name POther = ''object''"

text \<open>\<^verbatim>\<open>d[k] = v\<close> on a dict: an existing key keeps its place, a new key goes last.\<close>

definition dict_set :: "string \<Rightarrow> 'v \<Rightarrow> (string \<times> 'v) list \<Rightarrow> (string \<times> 'v) list" where
  "dict_set k v d = AList.update k v d"

text \<open>\<^verbatim>\<open>{**a, **b}\<close>: the items of \<^verbatim>\<open>b\<close> are stored into a copy of \<^verbatim>\<open>a\<close>, first to last.\<close>

definition dict_merge :: "(string \<times> 'v) list \<Rightarrow> (string \<times> 'v) list \<Rightarrow> (string \<times> 'v) list" where
  "dict_merge a b = fold (\<lambda>(k, v). dict_set k v) b a"

text \<open>
  \<^verbatim>\<open>json.load\<close> on a parsed document: arrays become lists, and an object becomes the dict
  built by storing its members in order, so the last of two equal keys wins. Every key
  of such a dict is a \<^verbatim>\<open>str\<close>.
\<close>

primrec py_of_json :: "json \<Rightarrow> pyval" where
  "py_of_json JNull = PNone"
| "py_of_json (JBool b) = PBool b"
| "py_of_json (JInt n) = PInt n"
| "py_of_json (JFloat x r) = PFloat x r"
| "py_of_json (JStr s) = PStr s"
| "py_of_json (JArr xs) = PList (map py_of_json xs)"
| "py_of_json (JObj kvs) =
     PDict (map (map_prod KStr id) (dict_merge [] (map (map_prod id py_of_json) kvs)))"

text \<open>The items of a dict whose key is a \<^verbatim>\<open>str\<close>: all of them, for a dict from \<^verbatim>\<open>json.load\<close>.\<close>

fun str_items :: "(pykey \<times> pyval) list \<Rightarrow> pydict" where
  "str_items [] = []"
| "str_items ((KStr k, v) # kvs) = (k, v) # str_items kvs"
| "str_items (kv # kvs) = str_items kvs"

text \<open>
  The key \<^verbatim>\<open>json.dump\<close> writes for a key of a dict: a \<^verbatim>\<open>str\<close> as it is, a
  \<^verbatim>\<open>float\<close> by its \<^verbatim>\<open>repr\<close>, \<^verbatim>\<open>True\<close>, \<^verbatim>\<open>False\<close> and \<^verbatim>\<open>None\<close> as \<^verbatim>\<open>true\<close>,
  \<^verbatim>\<open>false\<close> and \<^verbatim>\<open>null\<close>, an \<^verbatim>\<open>int\<close> by its \<^verbatim>\<open>str\<close>; any other key raises
  \<^verbatim>\<open>TypeError\<close> (\<open>Inl\<close>, with the message).
\<close>

fun json_key :: "pykey \<Rightarrow> string + string" where
  "json_key (KStr k) = Inr k"
| "json_key (KFloat x r) = Inr r"
| "json_key (KBool b) = Inr (if b then ''true'' else ''false'')"
| "json_key KNone = Inr ''null''"
| "json_key (KInt n) = Inr (str_int n)"
| "json_key KOther = Inl ''keys must be str, int, float, bool or None, not object''"

text \<open>The results of a sequence of steps, up to the first that raises.\<close>

fun collect :: "('e + 'a) list \<Rightarrow> 'e + 'a list" where
  "collect [] = Inr []"
| "collect (Inl e # rs) = Inl e"
| "collect (Inr x # rs) = (case collect rs of Inl e \<Rightarrow> Inl e | Inr xs \<Rightarrow> Inr (x # xs))"

text \<open>One member of an object: the key is written first, then the value.\<close>

definition member :: "pykey \<times> (string + 'a) \<Rightarrow> string + (string \<times> 'a)" where
  "member kr =
     (case json_key (fst kr) of
        Inl e \<Rightarrow> Inl e
      | Inr k \<Rightarrow> (case snd kr of Inl e \<Rightarrow> Inl e | Inr j \<Rightarrow> Inr (k, j)))"

text \<open>
  \<^verbatim>\<open>json.dump\<close>: lists and tuples are both written as arrays, the keys of a dict as
  \<open>json_key\<close> gives them; an object that is not serializable makes the call raise
  \<^verbatim>\<open>TypeError\<close> (\<open>Inl\<close>, with the message).
\<close>

primrec json_of_py :: "pyval \<Rightarrow> string + json" where
  "json_of_py PNone = Inr JNull"
| "json_of_py (PBool b) = Inr (JBool b)"
| "json_of_py (PInt n) = Inr (JInt n)"
| "json_of_py (PFloat x r) = Inr (JFloat x r)"
| "json_of_py (PStr s) = Inr (JStr s)"
| "json_of_py (PList xs) = map_sum id JArr (collect (map json_of_py xs))"
| "json_of_py (PTuple xs) = map_sum id JArr (collect (map json_of_py xs))"
| "json_of_py (PDict kvs) =
     map_sum id JObj (collect (map member (map (map_prod id json_of_py) kvs)))"
| "json_of_py POther = Inl ''Object of type object is not JSON serializable''"

section \<open>Config\<close>

definition DEFAULT_CONFIG :: pydict where
  "DEFAULT_CONFIG =
     [(''search_delay'', PTuple [PInt 3, PInt 7]),
      (''page_load_timeout'', PInt 30),
      (''max_retries'', PInt 3),
      (''save_log'', PBool True),
      (''headless_mode'', PBool False)]"

text \<open>
  What \<^verbatim>\<open>config.json\<close> is to \<^verbatim>\<open>Config.load\<close>: absent (\<^verbatim>\<open>open\<close> raises
  \<^verbatim>\<open>FileNotFoundError\<close>), present but \<^verbatim>\<open>open\<close> or the read raises another error,
  present with a text that \<^verbatim>\<open>json.load\<close> rejects, or present with a JSON document.
  The two failures carry the text of the exception.
\<close>

datatype config_file =
    NoFile
  | Unreadable string
  | Malformed string
  | Document json

text \<open>The events a run leaves behind: the log, the status reports and the calls on the driver.\<close>

datatype event =
    Status string
  | LogError string
  | ReadFile string
  | Launch string "string list"
  | SetTimeout pyval
  | Search string nat nat
  | Quit

definition not_a_mapping :: "pyval \<Rightarrow> string" where
  "not_a_mapping v = quoted (type_name v) @ '' object is not a mapping''"

text \<open>
  \<^verbatim>\<open>Config.load\<close> returns the configuration and what it logged. \<^verbatim>\<open>DEFAULT_CONFIG\<close>
  is the class attribute as the module defines it, which is its value at the one call
  of \<^verbatim>\<open>load\<close>, in \<^verbatim>\<open>BingSearchAutomation.__init__\<close>. Unpacking \<^verbatim>\<open>**\<close> a value that is
  not a dict raises \<^verbatim>\<open>TypeError\<close> inside the \<^verbatim>\<open>try\<close>.
\<close>

definition load :: "config_file \<Rightarrow> pydict \<times> event list" where
  "load f =
     (case f of
        NoFile \<Rightarrow> (DEFAULT_CONFIG, [])
      | Unreadable e \<Rightarrow> (DEFAULT_CONFIG, [LogError (''Error cargando configuraci'' @ [CHR 0xF3] @ ''n: '' @ e)])
      | Malformed e \<Rightarrow> (DEFAULT_CONFIG, [LogError (''Error cargando configuraci'' @ [CHR 0xF3] @ ''n: '' @ e)])
      | Document j \<Rightarrow>
          (case py_of_json j of
             PDict kvs \<Rightarrow> (dict_merge DEFAULT_CONFIG (str_items kvs), [])
           | v \<Rightarrow> (DEFAULT_CONFIG,
                    [LogError (''Error cargando configuraci'' @ [CHR 0xF3] @ ''n: ''
                               @ not_a_mapping v)])))"

text \<open>The configuration as the Python value it is, a dict with \<^verbatim>\<open>str\<close> keys.\<close>

definition config_value :: "pydict \<Rightarrow> pyval" where
  "config_value config = PDict (map (map_prod KStr id) config)"

text \<open>
  \<^verbatim>\<open>Config.save\<close>: \<^verbatim>\<open>open(..., 'w')\<close> may fail (\<open>writable\<close> carries the error text),
  and then the file is as it was; once opened the file is truncated, and a value that
  \<^verbatim>\<open>json.dump\<close> rejects leaves an incomplete text behind, which \<^verbatim>\<open>json.load\<close> will
  reject (the position its message gives is not worked out). Every failure is logged
  and swallowed.
\<close>

definition save :: "string option \<Rightarrow> pydict \<Rightarrow> config_file \<Rightarrow> config_file \<times> event list" where
  "save writable config f =
     (case writable of
        Some e \<Rightarrow> (f, [LogError (''Error guardando configuraci'' @ [CHR 0xF3] @ ''n: '' @ e)])
      | None \<Rightarrow>
          (case json_of_py (config_value config) of
             Inr j \<Rightarrow> (Document j, [])
           | Inl e \<Rightarrow> (Malformed ''Expecting value'',
                      [LogError (''Error guardando configuraci'' @ [CHR 0xF3] @ ''n: '' @ e)])))"

section \<open>Text\<close>

text \<open>
  \<^verbatim>\<open>str.strip()\<close> removes the white space of both ends: the characters for which
  \<^verbatim>\<open>str.isspace\<close> holds, which below 256 are 9 to 13, 28 to 32, 133 and 160.
\<close>

definition isspace :: "char \<Rightarrow> bool" where
  "isspace c = ((of_char c :: nat) \<in> set [9, 10, 11, 12, 13, 28, 29, 30, 31, 32, 133, 160])"

definition strip :: "string \<Rightarrow> string" where
  "strip l = rev (dropWhile isspace (rev (dropWhile isspace l)))"

text \<open>
  Reading a text file opened with the default \<^verbatim>\<open>newline=None\<close>: \<^verbatim>\<open>\r\n\<close> and a lone
  \<^verbatim>\<open>\r\<close> are read as \<^verbatim>\<open>\n\<close>, and iterating yields the lines, each with its \<^verbatim>\<open>\n\<close>
  (the last one without, when the text does not end in one).
\<close>

fun universal_newlines :: "string \<Rightarrow> string" where
  "universal_newlines [] = []"
| "universal_newlines [c] = (if c = CHR 0x0D then [CHR 0x0A] else [c])"
| "universal_newlines (c # d # cs) =
     (if c = CHR 0x0D then
        (if d = CHR 0x0A then CHR 0x0A # universal_newlines cs
         else CHR 0x0A # universal_newlines (d # cs))
      else c # universal_newlines (d # cs))"

fun lines_from :: "string \<Rightarrow> string \<Rightarrow> string list" where
  "lines_from cur [] = (if cur = [] then [] else [cur])"
| "lines_from cur (c # cs) =
     (if c = CHR 0x0A then (cur @ [c]) # lines_from [] cs else lines_from (cur @ [c]) cs)"

definition file_lines :: "string \<Rightarrow> string list" where
  "file_lines text = lines_from [] (universal_newlines text)"

definition busquedas :: string where
  "busquedas = ''b'' @ [CHR 0xFA] @ ''squedas''"

definition cancelled_message :: string where
  "cancelled_message = ''Proceso cancelado por el usuario''"

definition searching_message :: "nat \<Rightarrow> nat \<Rightarrow> string \<Rightarrow> string" where
  "searching_message current total' search_term =
     ''Buscando ('' @ str_nat current @ ''/'' @ str_nat total' @ ''): '' @ search_term"

definition completed_message :: "nat \<Rightarrow> nat \<Rightarrow> string" where
  "completed_message completed total' =
     ''Completadas '' @ str_nat completed @ ''/'' @ str_nat total' @ '' '' @ busquedas"

section \<open>Exceptions and the world outside\<close>

text \<open>
  The exceptions of the program, each with its \<^verbatim>\<open>str\<close>. \<^verbatim>\<open>WebDriverException\<close> is any
  exception of that class which is not a \<^verbatim>\<open>TimeoutException\<close>; \<^verbatim>\<open>OtherError\<close> is any
  exception of a library that is neither.
\<close>

datatype exn =
    TimeoutException string
  | WebDriverException string
  | FileNotFoundError string
  | ValueError string
  | TypeError string
  | KeyError string
  | Exception string
  | OtherError string

fun str_exn :: "exn \<Rightarrow> string" where
  "str_exn (TimeoutException m) = m"
| "str_exn (WebDriverException m) = m"
| "str_exn (FileNotFoundError m) = m"
| "str_exn (ValueError m) = m"
| "str_exn (TypeError m) = m"
| "str_exn (KeyError m) = quoted m"
| "str_exn (Exception m) = m"
| "str_exn (OtherError m) = m"

text \<open>
  A path names nothing, something that is not a regular file, or a regular file; opening
  and decoding a regular file raises or gives its text.
\<close>

datatype fentry =
    Absent
  | NotRegular
  | Regular "exn + string"

text \<open>The statements of \<^verbatim>\<open>single_search\<close> that call a library, in order.\<close>

datatype step = Get | WaitBox | Clear | SendTerm | SendReturn | DrawDelay | Sleep

text \<open>
  What the program does not decide. \<open>launch\<close> and \<open>set_timeout\<close> are the exceptions of
  \<^verbatim>\<open>webdriver.Edge(...)\<close> (with \<^verbatim>\<open>Service(...)\<close>) and \<^verbatim>\<open>set_page_load_timeout\<close>;
  \<open>drive k\<close> gives, for the call of \<^verbatim>\<open>single_search\<close> number \<open>k\<close> (from 0), the
  exception each of its steps raises; \<open>quit\<close> is the exception of \<^verbatim>\<open>driver.quit()\<close>.
  \<open>status_callback\<close> is the callback given to the constructor: from the number of the
  status report (from 0), the message and the running flag it gives the running flag
  after the call (the callback of the GUI runs \<^verbatim>\<open>root.update()\<close>, which serves a
  pending click on Cancel). A callback is taken to return.
\<close>

record env =
  file_system :: "string \<Rightarrow> fentry"
  launch :: "exn option"
  set_timeout :: "exn option"
  drive :: "nat \<Rightarrow> step \<Rightarrow> exn option"
  quit :: "exn option"
  status_callback :: "(nat \<Rightarrow> string \<Rightarrow> bool \<Rightarrow> bool) option"

text \<open>
  The state of a \<^verbatim>\<open>BingSearchAutomation\<close> during a run: the flag \<^verbatim>\<open>self.running\<close>,
  what the run has logged, reported and asked of the driver so far, how many status
  reports and calls of \<^verbatim>\<open>single_search\<close> there have been, and the local
  \<^verbatim>\<open>completed_searches\<close> of \<^verbatim>\<open>perform_search\<close>, which its \<^verbatim>\<open>finally\<close> reads.
\<close>

record runner =
  running :: bool
  trace :: "event list"
  updates :: nat
  calls :: nat
  completed_searches :: nat

definition new_runner :: runner where
  "new_runner = \<lparr>running = True, trace = [], updates = 0, calls = 0, completed_searches = 0\<rparr>"

section \<open>BingSearchAutomation\<close>

definition notify :: "env \<Rightarrow> nat \<Rightarrow> string \<Rightarrow> bool \<Rightarrow> bool" where
  "notify E n message b =
     (case status_callback E of None \<Rightarrow> b | Some cb \<Rightarrow> cb n message b)"

definition update_status :: "env \<Rightarrow> string \<Rightarrow> runner \<Rightarrow> runner" where
  "update_status E message s =
     s\<lparr>running := notify E (updates s) message (running s),
       trace := trace s @ [Status message],
       updates := Suc (updates s)\<rparr>"

definition log_error :: "string \<Rightarrow> runner \<Rightarrow> runner" where
  "log_error message s = s\<lparr>trace := trace s @ [LogError message]\<rparr>"

text \<open>Python's truth value of a configuration value.\<close>

fun truthy :: "pyval \<Rightarrow> bool" where
  "truthy PNone = False"
| "truthy (PBool b) = b"
| "truthy (PInt n) = (n \<noteq> 0)"
| "truthy (PFloat x r) = (x \<noteq> 0)"
| "truthy (PStr s) = (s \<noteq> [])"
| "truthy (PList xs) = (xs \<noteq> [])"
| "truthy (PTuple xs) = (xs \<noteq> [])"
| "truthy (PDict kvs) = (kvs \<noteq> [])"
| "truthy POther = True"

text \<open>
  \<^verbatim>\<open>retries < v\<close> for the \<^verbatim>\<open>int\<close> \<^verbatim>\<open>retries\<close> and a value of the configuration:
  Python compares an \<^verbatim>\<open>int\<close> with an \<^verbatim>\<open>int\<close>, a \<^verbatim>\<open>bool\<close> (a subclass of \<^verbatim>\<open>int\<close>) or
  a \<^verbatim>\<open>float\<close> by their numbers, and raises \<^verbatim>\<open>TypeError\<close> (\<open>None\<close>) for every other
  value of the model.
\<close>

fun py_lt :: "int \<Rightarrow> pyval \<Rightarrow> bool option" where
  "py_lt n (PInt m) = Some (n < m)"
| "py_lt n (PBool b) = Some (n < (if b then 1 else 0))"
| "py_lt n (PFloat x r) = Some (of_int n < x)"
| "py_lt n _ = None"

text \<open>\<^verbatim>\<open>retries == v\<close>, which never raises: values that are not numbers are not equal to one.\<close>

fun py_eq :: "int \<Rightarrow> pyval \<Rightarrow> bool" where
  "py_eq n (PInt m) = (n = m)"
| "py_eq n (PBool b) = (n = (if b then 1 else 0))"
| "py_eq n (PFloat x r) = (of_int n = x)"
| "py_eq n _ = False"

text \<open>
  \<^verbatim>\<open>str\<close> of a value that \<^verbatim>\<open><\<close> has accepted, an \<^verbatim>\<open>int\<close>, a \<^verbatim>\<open>bool\<close> or a
  \<^verbatim>\<open>float\<close>.
\<close>

fun str_limit :: "pyval \<Rightarrow> string" where
  "str_limit (PInt n) = str_int n"
| "str_limit (PBool b) = (if b then ''True'' else ''False'')"
| "str_limit (PFloat x r) = r"
| "str_limit _ = []"

definition timeout_message :: "string \<Rightarrow> int \<Rightarrow> pyval \<Rightarrow> string" where
  "timeout_message search_term retries limit =
     ''Timeout en '' @ quoted search_term @ ''. Reintento '' @ str_int retries @ ''/''
       @ str_limit limit"

definition failure_message :: "string \<Rightarrow> int \<Rightarrow> string" where
  "failure_message search_term retries =
     ''Fallo al completar b'' @ [CHR 0xFA] @ ''squeda para '' @ quoted search_term
       @ '' despu'' @ [CHR 0xE9] @ ''s de '' @ str_int retries @ '' reintentos''"

definition isfile :: "env \<Rightarrow> string \<Rightarrow> bool" where
  "isfile E path = (case file_system E path of Regular _ \<Rightarrow> True | _ \<Rightarrow> False)"

text \<open>
  \<^verbatim>\<open>setup_driver\<close>: the options are built outside the \<^verbatim>\<open>try\<close>; every exception of the
  three statements inside it is raised again as an \<^verbatim>\<open>Exception\<close>. The handle of the
  driver has no content here, so the function returns \<open>()\<close> for it.
\<close>

definition setup_driver :: "env \<Rightarrow> pydict \<Rightarrow> string \<Rightarrow> runner \<Rightarrow> (exn + unit) \<times> runner" where
  "setup_driver E config driver_path s =
     (case map_of config ''headless_mode'' of
        None \<Rightarrow> (Inl (KeyError ''headless_mode''), s)
      | Some h \<Rightarrow>
          (let arguments = (if truthy h then [''--headless''] else [])
                 @ [''--start-maximized'', ''--disable-extensions'']
           in case launch E of
                Some e \<Rightarrow> (Inl (Exception (''Error al configurar WebDriver: '' @ str_exn e)), s)
              | None \<Rightarrow>
                  (let s1 = s\<lparr>trace := trace s @ [Launch driver_path arguments]\<rparr>
                   in case map_of config ''page_load_timeout'' of
                        None \<Rightarrow>
                          (Inl (Exception (''Error al configurar WebDriver: ''
                                           @ str_exn (KeyError ''page_load_timeout''))), s1)
                      | Some t \<Rightarrow>
                          (case set_timeout E of
                             Some e \<Rightarrow>
                               (Inl (Exception (''Error al configurar WebDriver: '' @ str_exn e)), s1)
                           | None \<Rightarrow> (Inr (), s1\<lparr>trace := trace s1 @ [SetTimeout t]\<rparr>)))))"

text \<open>The first exception among the steps, run in order.\<close>

fun first_raise :: "(step \<Rightarrow> exn option) \<Rightarrow> step list \<Rightarrow> exn option" where
  "first_raise r [] = None"
| "first_raise r (x # xs) = (case r x of Some e \<Rightarrow> Some e | None \<Rightarrow> first_raise r xs)"

text \<open>
  \<^verbatim>\<open>single_search\<close>: the page, the wait for the box, the three uses of the box and the
  draw of the delay; then the status report; then the sleep. It handles no exception.
\<close>

definition single_search ::
    "env \<Rightarrow> string \<Rightarrow> nat \<Rightarrow> nat \<Rightarrow> runner \<Rightarrow> exn option \<times> runner" where
  "single_search E search_term current total' s =
     (let r = drive E (calls s);
          s1 = s\<lparr>trace := trace s @ [Search search_term current total'],
                 calls := Suc (calls s)\<rparr>
      in case first_raise r [Get, WaitBox, Clear, SendTerm, SendReturn, DrawDelay] of
           Some e \<Rightarrow> (Some e, s1)
         | None \<Rightarrow>
             (r Sleep, update_status E (searching_message current total' search_term) s1))"


definition not_comparable :: "pyval \<Rightarrow> exn" where
  "not_comparable v =
     TypeError (quoted ''<'' @ '' not supported between instances of '' @ quoted ''int''
                @ '' and '' @ quoted (type_name v))"

text \<open>
  The least integer that is not below a number of the configuration: an \<^verbatim>\<open>int\<close> is
  below the number exactly when it is below this integer.
\<close>

fun loop_bound :: "pyval \<Rightarrow> int option" where
  "loop_bound (PInt m) = Some m"
| "loop_bound (PBool b) = Some (if b then 1 else 0)"
| "loop_bound (PFloat x r) = Some \<lceil>x\<rceil>"
| "loop_bound _ = None"

text \<open>
  The bound of the \<^verbatim>\<open>while\<close> loop: that integer for \<^verbatim>\<open>self.config['max_retries']\<close>,
  0 where the condition raises.
\<close>

definition retry_limit :: "pydict \<Rightarrow> int" where
  "retry_limit config =
     (case map_of config ''max_retries'' of
        None \<Rightarrow> 0
      | Some v \<Rightarrow> (case loop_bound v of None \<Rightarrow> 0 | Some m \<Rightarrow> m))"

text \<open>
  The \<^verbatim>\<open>while\<close> loop of \<^verbatim>\<open>perform_search\<close> for one term, entered with \<open>retries\<close>.
  The condition reads the configuration, compares, and only then reads the flag. A
  search that returns counts as completed and leaves the loop; a \<^verbatim>\<open>TimeoutException\<close>
  counts a retry, reports it, logs the failure when the count equals the limit, and goes
  round again; a \<^verbatim>\<open>WebDriverException\<close> is logged and raised again; any other
  exception leaves the loop as it is.
\<close>

function retry_loop ::
    "env \<Rightarrow> pydict \<Rightarrow> string \<Rightarrow> nat \<Rightarrow> nat \<Rightarrow> int \<Rightarrow> runner \<Rightarrow> exn option \<times> runner" where
  "retry_loop E config search_term i total' retries s =
     (case map_of config ''max_retries'' of
        None \<Rightarrow> (Some (KeyError ''max_retries''), s)
      | Some v \<Rightarrow>
          (case py_lt retries v of
             None \<Rightarrow> (Some (not_comparable v), s)
           | Some below \<Rightarrow>
               if below \<and> running s then
                 (case single_search E search_term i total' s of
                    (None, s1) \<Rightarrow>
                      (None, s1\<lparr>completed_searches := Suc (completed_searches s1)\<rparr>)
                  | (Some e, s1) \<Rightarrow>
                      (case e of
                         TimeoutException _ \<Rightarrow>
                           (let s2 = update_status E
                                       (timeout_message search_term (retries + 1) v) s1;
                                s3 = (if py_eq (retries + 1) v
                                      then log_error (failure_message search_term (retries + 1)) s2
                                      else s2)
                            in retry_loop E config search_term i total' (retries + 1) s3)
                       | WebDriverException msg \<Rightarrow>
                           (Some e, log_error (''Error de WebDriver: '' @ msg) s1)
                       | _ \<Rightarrow> (Some e, s1)))
               else (None, s)))"
  by pat_completeness auto
termination
proof (relation "measure (\<lambda>(E, config, search_term, i, total', retries, s).
                   nat (retry_limit config - retries))")
  show "wf (measure (\<lambda>(E, config, search_term, i, total', retries, s).
                   nat (retry_limit config - retries)))"
    by simp
next
  fix E :: env and config :: pydict and search_term :: string and i total' :: nat
    and retries :: int and s s1 s2 s3 :: runner and v below
  assume "map_of config ''max_retries'' = Some v" "py_lt retries v = Some below"
    "below \<and> running s"
  then have "retries < retry_limit config"
    by (cases v) (auto simp: retry_limit_def less_ceiling_iff)
  then show "((E, config, search_term, i, total', retries + 1, s3),
              (E, config, search_term, i, total', retries, s))
             \<in> measure (\<lambda>(E, config, search_term, i, total', retries, s).
                   nat (retry_limit config - retries))"
    by simp
qed

declare retry_loop.simps [simp del]

text \<open>
  The \<^verbatim>\<open>for\<close> loop over \<^verbatim>\<open>enumerate(searches, 1)\<close>: the flag is read before each
  term, and an exception of the inner loop ends the iteration.
\<close>

fun search_loop ::
    "env \<Rightarrow> pydict \<Rightarrow> nat \<Rightarrow> (nat \<times> string) list \<Rightarrow> runner \<Rightarrow> exn option \<times> runner" where
  "search_loop E config total' [] s = (None, s)"
| "search_loop E config total' ((i, search_term) # rest) s =
     (if \<not> running s then (None, update_status E cancelled_message s)
      else case retry_loop E config search_term i total' 0 s of
             (None, s1) \<Rightarrow> search_loop E config total' rest s1
           | (Some e, s1) \<Rightarrow> (Some e, s1))"

text \<open>\<^verbatim>\<open>[line.strip() for line in f if line.strip()]\<close>.\<close>

definition search_terms :: "string \<Rightarrow> string list" where
  "search_terms text = map strip (filter (\<lambda>line. strip line \<noteq> []) (file_lines text))"

definition read_searches :: "env \<Rightarrow> string \<Rightarrow> runner \<Rightarrow> (exn + string list) \<times> runner" where
  "read_searches E search_file s =
     (case file_system E search_file of
        Regular content \<Rightarrow>
          (case content of
             Inl e \<Rightarrow> (Inl e, s\<lparr>trace := trace s @ [ReadFile search_file]\<rparr>)
           | Inr text \<Rightarrow>
               (Inr (search_terms text), s\<lparr>trace := trace s @ [ReadFile search_file]\<rparr>))
      | _ \<Rightarrow> (Inl (FileNotFoundError search_file), s))"

text \<open>
  The \<^verbatim>\<open>finally\<close> of \<^verbatim>\<open>perform_search\<close>, first half: with a handle in \<^verbatim>\<open>driver\<close>,
  \<^verbatim>\<open>driver.quit()\<close> is called and what it raises is dropped.
\<close>

definition close_session :: "env \<Rightarrow> bool \<Rightarrow> runner \<Rightarrow> runner" where
  "close_session E driver s =
     (if driver then
        (case quit E of
           None \<Rightarrow> s\<lparr>trace := trace s @ [Quit]\<rparr>
         | Some e \<Rightarrow> s\<lparr>trace := trace s @ [Quit]\<rparr>)
      else s)"

text \<open>
  \<^verbatim>\<open>perform_search\<close> returns the exception that leaves it (\<open>None\<close> when it returns)
  and the state it leaves. \<open>driver\<close> is whether the local \<^verbatim>\<open>driver\<close> holds a handle.
\<close>

definition perform_search ::
    "env \<Rightarrow> pydict \<Rightarrow> string \<Rightarrow> string \<Rightarrow> runner \<Rightarrow> exn option \<times> runner" where
  "perform_search E config search_file driver_path s =
     (if \<not> (isfile E search_file \<and> isfile E driver_path) then
        (Some (FileNotFoundError (''Archivo de '' @ busquedas @ '' o WebDriver no encontrado'')), s)
      else
        (case read_searches E search_file s of
           (Inl e, s0) \<Rightarrow>
             (Some (Exception (''Error leyendo archivo de '' @ busquedas @ '': '' @ str_exn e)), s0)
         | (Inr searches, s0) \<Rightarrow>
             if searches = [] then
               (Some (ValueError (''El archivo de '' @ busquedas @ '' est'' @ [CHR 0xE1]
                                  @ '' vac'' @ [CHR 0xED] @ ''o'')), s0)
             else
               (let s1 = s0\<lparr>completed_searches := 0\<rparr>;
                    (driver, raised, s2) =
                      (case setup_driver E config driver_path s1 of
                         (Inl e, s') \<Rightarrow> (False, Some e, s')
                       | (Inr _, s') \<Rightarrow>
                           (case search_loop E config (length searches)
                                   (enumerate 1 searches) s' of
                              (r, s'') \<Rightarrow> (True, r, s'')));
                    s3 = close_session E driver s2
                in (raised,
                    update_status E
                      (completed_message (completed_searches s3) (length searches)) s3))))"

section \<open>Vocabulary of the statements\<close>

text \<open>The calls of \<^verbatim>\<open>single_search\<close> among the events.\<close>

fun is_search :: "event \<Rightarrow> bool" where
  "is_search (Search t i n) = True"
| "is_search _ = False"

fun is_status :: "event \<Rightarrow> bool" where
  "is_status (Status m) = True"
| "is_status _ = False"

fun is_log_error :: "event \<Rightarrow> bool" where
  "is_log_error (LogError m) = True"
| "is_log_error _ = False"


text \<open>
  What the call number \<open>k\<close> of \<^verbatim>\<open>single_search\<close> raises (\<open>None\<close> when it returns):
  the outside world decides it, whatever the term and the state of the runner are.
\<close>

definition search_raises :: "env \<Rightarrow> nat \<Rightarrow> exn option" where
  "search_raises E k = fst (single_search E [] 0 0 (new_runner\<lparr>calls := k\<rparr>))"

text \<open>The status callback never clears a flag that is set: nobody cancels.\<close>

definition never_cancels :: "env \<Rightarrow> bool" where
  "never_cancels E = (\<forall>n message. notify E n message True)"

text \<open>
  \<^verbatim>\<open>setup_driver\<close> returns a handle: the outside world and the configuration decide it,
  whatever the path and the state of the runner are.
\<close>

definition session_opens :: "env \<Rightarrow> pydict \<Rightarrow> bool" where
  "session_opens E config = (fst (setup_driver E config [] new_runner) = Inr ())"

text \<open>
  The state the handler of \<^verbatim>\<open>TimeoutException\<close> leaves for the next turn of the
  \<^verbatim>\<open>while\<close> loop: the search has been called, the retry reported, and the failure
  logged when the count equals the limit.
\<close>

definition after_timeout ::
    "env \<Rightarrow> string \<Rightarrow> nat \<Rightarrow> nat \<Rightarrow> int \<Rightarrow> pyval \<Rightarrow> runner \<Rightarrow> runner" where
  "after_timeout E t i n retries v s =
     (let s2 = update_status E (timeout_message t (retries + 1) v)
                 (snd (single_search E t i n s))
      in if py_eq (retries + 1) v then log_error (failure_message t (retries + 1)) s2 else s2)"

text \<open>The arguments \<^verbatim>\<open>setup_driver\<close> gives the browser for a value of \<^verbatim>\<open>headless_mode\<close>.\<close>

definition browser_arguments :: "pyval \<Rightarrow> string list" where
  "browser_arguments h =
     (if truthy h then [''--headless''] else []) @ [''--start-maximized'', ''--disable-extensions'']"

text \<open>
  A value as it comes back from a JSON text: every tuple is a list, and every key of a
  dict is the \<^verbatim>\<open>str\<close> \<^verbatim>\<open>json.dump\<close> wrote for it.
\<close>

definition image_key :: "pykey \<Rightarrow> pykey" where
  "image_key k = (case json_key k of Inr text \<Rightarrow> KStr text | Inl e \<Rightarrow> k)"

primrec json_image :: "pyval \<Rightarrow> pyval" where
  "json_image PNone = PNone"
| "json_image (PBool b) = PBool b"
| "json_image (PInt n) = PInt n"
| "json_image (PFloat x r) = PFloat x r"
| "json_image (PStr s) = PStr s"
| "json_image (PList xs) = PList (map json_image xs)"
| "json_image (PTuple xs) = PList (map json_image xs)"
| "json_image (PDict kvs) = PDict (map (map_prod image_key id) (map (map_prod id json_image) kvs))"
| "json_image POther = POther"

text \<open>A value that holds no tuple and no dict with a key that is not a \<^verbatim>\<open>str\<close>.\<close>

fun is_str_key :: "pykey \<Rightarrow> bool" where
  "is_str_key (KStr k) = True"
| "is_str_key _ = False"

primrec json_native :: "pyval \<Rightarrow> bool" where
  "json_native PNone = True"
| "json_native (PBool b) = True"
| "json_native (PInt n) = True"
| "json_native (PFloat x r) = True"
| "json_native (PStr s) = True"
| "json_native (PList xs) = list_all id (map json_native xs)"
| "json_native (PTuple xs) = False"
| "json_native (PDict kvs) =
     (list_all is_str_key (map fst kvs) \<and> list_all snd (map (map_prod id json_native) kvs))"
| "json_native POther = True"

text \<open>
  No dict in the value has two keys that \<^verbatim>\<open>json.dump\<close> writes as the same text (as
  \<^verbatim>\<open>1\<close> and \<^verbatim>\<open>'1'\<close> would be).
\<close>

primrec distinct_json_keys :: "pyval \<Rightarrow> bool" where
  "distinct_json_keys PNone = True"
| "distinct_json_keys (PBool b) = True"
| "distinct_json_keys (PInt n) = True"
| "distinct_json_keys (PFloat x r) = True"
| "distinct_json_keys (PStr s) = True"
| "distinct_json_keys (PList xs) = list_all id (map distinct_json_keys xs)"
| "distinct_json_keys (PTuple xs) = list_all id (map distinct_json_keys xs)"
| "distinct_json_keys (PDict kvs) =
     (distinct (map json_key (map fst kvs))
      \<and> list_all snd (map (map_prod id distinct_json_keys) kvs))"
| "distinct_json_keys POther = True"

text \<open>\<^verbatim>\<open>json.dump\<close> accepts the value.\<close>

definition serializable :: "pyval \<Rightarrow> bool" where
  "serializable v = (case json_of_py v of Inr j \<Rightarrow> True | Inl e \<Rightarrow> False)"

section \<open>Example worlds\<close>

text \<open>
  A term file with the lines \<^verbatim>\<open>cats\<close>, \<^verbatim>\<open>dogs\<close> and a blank line, and a driver; a
  world where the browser opens, every step of every search succeeds and nobody listens
  to the status; the same world with every page load timing out; and the same world
  with the first page load failing in the driver.
\<close>

definition example_files :: "string \<Rightarrow> fentry" where
  "example_files path =
     (if path = ''terms.txt'' then Regular (Inr ''cats\<newline>dogs\<newline>\<newline>'')
      else if path = ''msedgedriver.exe'' then Regular (Inr [])
      else Absent)"

definition example_env :: env where
  "example_env =
     \<lparr>file_system = example_files, launch = None, set_timeout = None,
      drive = (\<lambda>k x. None), quit = None, status_callback = None\<rparr>"

definition timeout_env :: env where
  "timeout_env =
     example_env\<lparr>drive := (\<lambda>k x. if x = Get then Some (TimeoutException ''page load'') else None)\<rparr>"

definition fatal_env :: env where
  "fatal_env =
     example_env\<lparr>drive := (\<lambda>k x. if x = Get then Some (WebDriverException ''no such window'')
                                  else None)\<rparr>"

text \<open>
  A configuration file that sets \<^verbatim>\<open>page_load_timeout\<close> to \<^verbatim>\<open>null\<close>, and the world in
  which the browser opens and \<^verbatim>\<open>set_page_load_timeout(None)\<close> raises \<^verbatim>\<open>TypeError\<close>.
\<close>

definition null_timeout_config :: pydict where
  "null_timeout_config = fst (load (Document (JObj [(''page_load_timeout'', JNull)])))"

definition null_timeout_env :: env where
  "null_timeout_env =
     example_env\<lparr>set_timeout :=
       Some (TypeError ''float() argument must be a string or a real number'')\<rparr>"

text \<open>
  A configuration with a delay window of 3.5 to 7 seconds, and one that holds a dict
  with the key \<^verbatim>\<open>1\<close>, an \<^verbatim>\<open>int\<close>.
\<close>

definition float_config :: pydict where
  "float_config =
     [(''search_delay'', PList [PFloat (7 / 2) ''3.5'', PInt 7]),
      (''max_retries'', PInt 3)]"

definition int_key_config :: pydict where
  "int_key_config = [(''a'', PDict [(KInt 1, PInt 2)])]"


section \<open>Dicts and JSON: lemmas\<close>

lemma map_of_dict_set: "map_of (dict_set k v d) = (map_of d)(k \<mapsto> v)"
  by (simp add: dict_set_def update_conv')

lemma distinct_dict_set: "distinct (map fst d) \<Longrightarrow> distinct (map fst (dict_set k v d))"
  by (simp add: dict_set_def distinct_update)

lemma map_of_dict_merge: "map_of (dict_merge a b) = map_of a ++ map_of (rev b)"
  unfolding dict_merge_def
proof (induction b arbitrary: a)
  case Nil
  show ?case by simp
next
  case (Cons p b)
  obtain k v where p: "p = (k, v)" by (cases p)
  have "map_of (fold (\<lambda>(k, v). dict_set k v) b (dict_set k v a))
      = map_of (dict_set k v a) ++ map_of (rev b)"
    by (rule Cons.IH)
  also have "\<dots> = map_of a ++ map_of (rev (p # b))"
    by (simp add: map_of_dict_set p map_add_def fun_eq_iff split: option.splits)
  finally show ?case by (simp add: p)
qed

lemma distinct_dict_merge: "distinct (map fst a) \<Longrightarrow> distinct (map fst (dict_merge a b))"
  unfolding dict_merge_def
  by (induction b arbitrary: a) (auto simp: distinct_dict_set)

lemma dict_set_fresh: "k \<notin> fst ` set d \<Longrightarrow> dict_set k v d = d @ [(k, v)]"
  unfolding dict_set_def by (induction d) auto

lemma dict_merge_fresh:
  "distinct (map fst b) \<Longrightarrow> fst ` set a \<inter> fst ` set b = {} \<Longrightarrow> dict_merge a b = a @ b"
  unfolding dict_merge_def
proof (induction b arbitrary: a)
  case Nil
  show ?case by simp
next
  case (Cons p b)
  obtain k v where p: "p = (k, v)" by (cases p)
  from Cons.prems have fresh: "k \<notin> fst ` set a" by (auto simp: p)
  have "fold (\<lambda>(k, v). dict_set k v) b (a @ [(k, v)]) = (a @ [(k, v)]) @ b"
    using Cons.prems by (intro Cons.IH) (auto simp: p)
  then show ?case by (simp add: p dict_set_fresh [OF fresh])
qed

lemma dict_merge_empty: "distinct (map fst b) \<Longrightarrow> dict_merge [] b = b"
  using dict_merge_fresh [of b "[]"] by simp

lemma map_of_rev_distinct: "distinct (map fst b) \<Longrightarrow> map_of (rev b) = map_of b"
  by (rule map_of_inject_set [THEN iffD2]) (simp_all add: rev_map [symmetric])

lemma collect_map_Inr [simp]: "collect (map Inr xs) = Inr xs"
  by (induction xs) auto

lemma collect_Inr_D: "collect rs = Inr xs \<Longrightarrow> rs = map Inr xs"
  by (induction rs arbitrary: xs rule: collect.induct) (auto split: sum.splits)

lemma collect_eq_Inr: "collect rs = Inr xs \<longleftrightarrow> rs = map Inr xs"
  using collect_Inr_D by auto

lemma str_items_KStr: "str_items (map (map_prod KStr id) xs) = xs"
  by (induction xs) auto

lemma json_roundtrip_list:
  assumes IH: "\<And>x j. x \<in> set xs \<Longrightarrow> distinct_json_keys x \<Longrightarrow> json_of_py x = Inr j
                  \<Longrightarrow> py_of_json j = json_image x"
    and wf: "list_all id (map distinct_json_keys xs)"
    and js: "map json_of_py xs = map Inr js"
  shows "map py_of_json js = map json_image xs"
proof (rule nth_equalityI)
  show "length (map py_of_json js) = length (map json_image xs)"
    using arg_cong [OF js, of length] by simp
next
  fix n assume n: "n < length (map py_of_json js)"
  then have nx: "n < length xs" using arg_cong [OF js, of length] by simp
  have "json_of_py (xs ! n) = Inr (js ! n)"
    using arg_cong [OF js, of "\<lambda>l. l ! n"] n nx by simp
  moreover have "distinct_json_keys (xs ! n)"
    using wf nx by (simp add: list_all_length)
  ultimately have "py_of_json (js ! n) = json_image (xs ! n)"
    using IH nx by (meson nth_mem)
  then show "map py_of_json js ! n = map json_image xs ! n"
    using n nx by simp
qed

lemma json_roundtrip:
  "distinct_json_keys v \<Longrightarrow> json_of_py v = Inr j \<Longrightarrow> py_of_json j = json_image v"
proof (induction v arbitrary: j)
  case (PList xs)
  from PList.prems(2) obtain js where js: "map json_of_py xs = map Inr js" and j: "j = JArr js"
    by (cases "collect (map json_of_py xs)") (auto simp: collect_eq_Inr)
  have "map py_of_json js = map json_image xs"
    using PList.IH PList.prems(1) js by (intro json_roundtrip_list) auto
  then show ?case by (simp add: j)
next
  case (PTuple xs)
  from PTuple.prems(2) obtain js where js: "map json_of_py xs = map Inr js" and j: "j = JArr js"
    by (cases "collect (map json_of_py xs)") (auto simp: collect_eq_Inr)
  have "map py_of_json js = map json_image xs"
    using PTuple.IH PTuple.prems(1) js by (intro json_roundtrip_list) auto
  then show ?case by (simp add: j)
next
  case (PDict kvs)
  from PDict.prems(2) obtain jkvs
    where js: "map member (map (map_prod id json_of_py) kvs) = map Inr jkvs"
      and j: "j = JObj jkvs"
    by (cases "collect (map member (map (map_prod id json_of_py) kvs))")
       (auto simp: collect_eq_Inr simp del: map_map)
  have len: "length jkvs = length kvs"
    using arg_cong [OF js, of length] by simp
  have item: "\<exists>k v name jv. kvs ! n = (k, v) \<and> json_key k = Inr name \<and> json_of_py v = Inr jv
                \<and> jkvs ! n = (name, jv) \<and> py_of_json jv = json_image v"
    if nx: "n < length kvs" for n
  proof -
    obtain k v where kv: "kvs ! n = (k, v)" by (cases "kvs ! n")
    have "member (map_prod id json_of_py (kvs ! n)) = Inr (jkvs ! n)"
      using arg_cong [OF js, of "\<lambda>l. l ! n"] nx len by simp
    then obtain name jv where key: "json_key k = Inr name" and jv: "json_of_py v = Inr jv"
        and jn: "jkvs ! n = (name, jv)"
      by (auto simp: member_def kv split: sum.splits)
    have mem: "(k, v) \<in> set kvs" using nx kv by (metis nth_mem)
    have "distinct_json_keys v"
      using PDict.prems(1) mem by (auto simp: list_all_iff)
    then have "py_of_json jv = json_image v"
      using PDict.IH [OF mem, of v jv] jv by simp
    then show ?thesis using kv key jv jn by blast
  qed
  have eq: "map (map_prod KStr id) (map (map_prod id py_of_json) jkvs)
              = map (map_prod image_key id) (map (map_prod id json_image) kvs)"
  proof (rule nth_equalityI)
    show "length (map (map_prod KStr id) (map (map_prod id py_of_json) jkvs))
            = length (map (map_prod image_key id) (map (map_prod id json_image) kvs))"
      using len by simp
  next
    fix n assume "n < length (map (map_prod KStr id) (map (map_prod id py_of_json) jkvs))"
    then have nx: "n < length kvs" using len by simp
    from item [OF nx] show "map (map_prod KStr id) (map (map_prod id py_of_json) jkvs) ! n
              = map (map_prod image_key id) (map (map_prod id json_image) kvs) ! n"
      using nx len by (auto simp: image_key_def)
  qed
  have keys: "map Inr (map fst jkvs) = map json_key (map fst kvs)"
  proof (rule nth_equalityI)
    show "length (map Inr (map fst jkvs)) = length (map json_key (map fst kvs))"
      using len by simp
  next
    fix n assume "n < length (map Inr (map fst jkvs))"
    then have nx: "n < length kvs" using len by simp
    from item [OF nx] show "map Inr (map fst jkvs) ! n = map json_key (map fst kvs) ! n"
      using nx len by auto
  qed
  have "distinct (map json_key (map fst kvs))" using PDict.prems(1) by simp
  then have "distinct (map Inr (map fst jkvs) :: (string + string) list)"
    by (simp only: keys)
  then have "distinct (map fst jkvs)" by (simp add: distinct_map del: map_map)
  then have "distinct (map fst (map (map_prod id py_of_json) jkvs))"
    by (simp add: comp_def)
  then show ?case
    by (simp add: j dict_merge_empty eq del: map_map)
qed simp_all

lemma json_image_native: "json_native v \<Longrightarrow> json_image v = v"
proof (induction v)
  case (PList xs)
  then show ?case by (auto simp: list_all_iff intro: map_idI)
next
  case (PDict kvs)
  have "map (map_prod image_key id) (map (map_prod id json_image) kvs) = kvs"
  proof (simp, rule map_idI)
    fix p assume p: "p \<in> set kvs"
    obtain k v where kv: "p = (k, v)" by (cases p)
    have "json_native v" "is_str_key k"
      using PDict.prems p by (auto simp: list_all_iff kv)
    moreover from this have "json_image v = v" using PDict.IH [of p v] p by (simp add: kv)
    ultimately show "(map_prod image_key id \<circ> map_prod id json_image) p = p"
      by (cases k) (simp_all add: kv image_key_def)
  qed
  then show ?case by simp
qed simp_all

lemma load_document_object:
  "map_of (fst (load (Document (JObj kvs)))) k =
     (case map_of (rev kvs) k of
        Some j \<Rightarrow> Some (py_of_json j)
      | None \<Rightarrow> map_of DEFAULT_CONFIG k)"
proof -
  have "map_of (rev (map (map_prod id py_of_json) kvs)) k = map_option py_of_json (map_of (rev kvs) k)"
    by (induction kvs) (auto simp: map_add_def split: option.splits)
  moreover have "distinct (map fst (dict_merge [] (map (map_prod id py_of_json) kvs)))"
    by (rule distinct_dict_merge) simp
  ultimately show ?thesis
    by (simp add: load_def str_items_KStr map_of_dict_merge map_of_rev_distinct map_add_def
        split: option.splits)
qed

lemma map_of_items_image:
  "map_of (map (map_prod id json_image) c) k = map_option json_image (map_of c k)"
  by (induction c) auto

lemma save_then_load:
  assumes ser: "json_of_py (config_value c) = Inr j"
    and wf: "distinct_json_keys (config_value c)"
    and k: "map_of c k = Some v"
  shows "map_of (fst (load (fst (save None c f)))) k = Some (json_image v)"
proof -
  have "json_image (config_value c)
          = PDict (map (map_prod KStr id) (map (map_prod id json_image) c))"
    by (auto simp: config_value_def image_key_def)
  then have py: "py_of_json j = PDict (map (map_prod KStr id) (map (map_prod id json_image) c))"
    using json_roundtrip [OF wf ser] by simp
  have "fst (save None c f) = Document j"
    unfolding save_def using ser by simp
  moreover have "distinct (map fst c)"
    using wf by (simp add: config_value_def distinct_map comp_def inj_on_def)
  then have "distinct (map fst (map (map_prod id json_image) c))"
    by (simp add: comp_def)
  ultimately show ?thesis
    by (simp add: load_def py str_items_KStr map_of_dict_merge map_of_rev_distinct map_add_def
        map_of_items_image k del: map_map)
qed

lemma default_keys:
  "map_of DEFAULT_CONFIG ''search_delay'' = Some (PTuple [PInt 3, PInt 7])"
  "map_of DEFAULT_CONFIG ''page_load_timeout'' = Some (PInt 30)"
  "map_of DEFAULT_CONFIG ''max_retries'' = Some (PInt 3)"
  "map_of DEFAULT_CONFIG ''save_log'' = Some (PBool True)"
  "map_of DEFAULT_CONFIG ''headless_mode'' = Some (PBool False)"
  by (simp_all add: DEFAULT_CONFIG_def)

lemma load_keeps_default_keys:
  "map_of DEFAULT_CONFIG k \<noteq> None \<Longrightarrow> map_of (fst (load f)) k \<noteq> None"
  by (cases f) (auto simp: load_def map_of_dict_merge map_add_def split: pyval.splits option.splits)

section \<open>Config: the defaults, the merge and the round trip\<close>

text \<open>
  Claim C4. \<^verbatim>\<open>Config.load\<close> has a configuration for every state of the file, so no
  exception leaves it. Without a file it returns the defaults and logs nothing: a delay
  window of 3 to 7, a page-load timeout of 30, 3 retries, logging on, headless off, and
  no other key. On a JSON object it returns the object's members over the defaults: a key
  of the object has the object's (last) value, every other key has what the defaults
  have. When the file cannot be read, or its text is not JSON, or the document is not an
  object, it returns the defaults.
\<close>

theorem load_defaults_and_merge:
  "load NoFile = (DEFAULT_CONFIG, [])
   \<and> map_of DEFAULT_CONFIG ''search_delay'' = Some (PTuple [PInt 3, PInt 7])
   \<and> map_of DEFAULT_CONFIG ''page_load_timeout'' = Some (PInt 30)
   \<and> map_of DEFAULT_CONFIG ''max_retries'' = Some (PInt 3)
   \<and> map_of DEFAULT_CONFIG ''save_log'' = Some (PBool True)
   \<and> map_of DEFAULT_CONFIG ''headless_mode'' = Some (PBool False)
   \<and> length DEFAULT_CONFIG = 5
   \<and> map_of (fst (load (Document (JObj kvs)))) k =
       (case map_of (rev kvs) k of
          Some j \<Rightarrow> Some (py_of_json j)
        | None \<Rightarrow> map_of DEFAULT_CONFIG k)
   \<and> fst (load (Unreadable e)) = DEFAULT_CONFIG
   \<and> fst (load (Malformed e)) = DEFAULT_CONFIG
   \<and> fst (load (Document JNull)) = DEFAULT_CONFIG
   \<and> fst (load (Document (JBool b))) = DEFAULT_CONFIG
   \<and> fst (load (Document (JInt n))) = DEFAULT_CONFIG
   \<and> fst (load (Document (JFloat x r))) = DEFAULT_CONFIG
   \<and> fst (load (Document (JStr t))) = DEFAULT_CONFIG
   \<and> fst (load (Document (JArr xs))) = DEFAULT_CONFIG"
proof -
  have "length DEFAULT_CONFIG = 5" by (simp add: DEFAULT_CONFIG_def)
  then show ?thesis
    by (simp add: default_keys load_document_object) (simp add: load_def)
qed

text \<open>
  Claim C9. Whatever the file is (absent, unreadable, malformed, or any document), the
  mapping \<^verbatim>\<open>Config.load\<close> returns binds each of the five default keys.
\<close>

theorem load_has_default_keys:
  "''search_delay'' \<in> dom (map_of (fst (load f)))
   \<and> ''page_load_timeout'' \<in> dom (map_of (fst (load f)))
   \<and> ''max_retries'' \<in> dom (map_of (fst (load f)))
   \<and> ''save_log'' \<in> dom (map_of (fst (load f)))
   \<and> ''headless_mode'' \<in> dom (map_of (fst (load f)))"
  using load_keeps_default_keys [of _ f] by (simp add: default_keys domIff)

lemma str_int_one: "str_int 1 = ''1''"
  by code_simp

text \<open>
  Claim C5, as stated, fails twice. On the default configuration itself, which is
  serializable: \<^verbatim>\<open>search_delay\<close> is the tuple \<^verbatim>\<open>(3, 7)\<close>, and after \<^verbatim>\<open>Config.save\<close>
  and \<^verbatim>\<open>Config.load\<close> the key is bound to the list \<^verbatim>\<open>[3, 7]\<close>, which is another
  value. And on a serializable configuration that holds the dict \<^verbatim>\<open>{1: 2}\<close>: it comes
  back as \<^verbatim>\<open>{'1': 2}\<close>.
\<close>

theorem save_load_changes_tuple:
  "serializable (config_value DEFAULT_CONFIG)
   \<and> map_of DEFAULT_CONFIG ''search_delay'' = Some (PTuple [PInt 3, PInt 7])
   \<and> map_of (fst (load (fst (save None DEFAULT_CONFIG NoFile)))) ''search_delay''
       = Some (PList [PInt 3, PInt 7])
   \<and> map_of (fst (load (fst (save None DEFAULT_CONFIG NoFile)))) ''search_delay''
       \<noteq> map_of DEFAULT_CONFIG ''search_delay''
   \<and> serializable (config_value int_key_config)
   \<and> map_of int_key_config ''a'' = Some (PDict [(KInt 1, PInt 2)])
   \<and> map_of (fst (load (fst (save None int_key_config NoFile)))) ''a''
       = Some (PDict [(KStr ''1'', PInt 2)])
   \<and> map_of (fst (load (fst (save None int_key_config NoFile)))) ''a''
       \<noteq> map_of int_key_config ''a''"
  by (simp add: DEFAULT_CONFIG_def int_key_config_def serializable_def config_value_def
      save_def load_def member_def dict_merge_def dict_set_def str_int_one)

text \<open>
  Claim C5, amended. Let \<open>c\<close> be a configuration that \<^verbatim>\<open>json.dump\<close> accepts, in which
  no dict has two keys written as the same text, and which \<^verbatim>\<open>Config.save\<close> manages to
  write. Then \<^verbatim>\<open>Config.load\<close> afterwards binds every key of \<open>c\<close> to the value \<open>c\<close>
  gives it with each tuple replaced by the list of the same items and each key of a dict
  inside it replaced by the \<^verbatim>\<open>str\<close> that \<^verbatim>\<open>json.dump\<close> writes for it; a value that
  holds no tuple and no dict key other than a \<^verbatim>\<open>str\<close> (integers, floats, strings,
  booleans, \<^verbatim>\<open>None\<close>, and lists and dicts of such) comes back unchanged.
\<close>

theorem save_load_roundtrip:
  assumes "serializable (config_value c)"
    and "distinct_json_keys (config_value c)"
    and "map_of c k = Some v"
  shows "map_of (fst (load (fst (save None c f)))) k = Some (json_image v)
         \<and> (json_native v \<longrightarrow> map_of (fst (load (fst (save None c f)))) k = Some v)"
proof -
  from assms(1) obtain j where "json_of_py (config_value c) = Inr j"
    by (auto simp: serializable_def split: sum.splits)
  then have "map_of (fst (load (fst (save None c f)))) k = Some (json_image v)"
    using assms(2,3) by (rule save_then_load)
  then show ?thesis by (simp add: json_image_native)
qed

theorem save_load_roundtrip_witness:
  "serializable (config_value float_config)
   \<and> distinct_json_keys (config_value float_config)
   \<and> map_of float_config ''search_delay'' = Some (PList [PFloat (7 / 2) ''3.5'', PInt 7])
   \<and> json_native (PList [PFloat (7 / 2) ''3.5'', PInt 7])
   \<and> map_of (fst (load (fst (save None float_config NoFile)))) ''search_delay''
       = Some (PList [PFloat (7 / 2) ''3.5'', PInt 7])"
proof -
  have a: "serializable (config_value float_config)"
    by (simp add: float_config_def serializable_def config_value_def member_def)
  have b: "distinct_json_keys (config_value float_config)"
    by (simp add: float_config_def config_value_def)
  have c: "map_of float_config ''search_delay'' = Some (PList [PFloat (7 / 2) ''3.5'', PInt 7])"
    by (simp add: float_config_def)
  show ?thesis
    using save_load_roundtrip [OF a b c, of NoFile] a b c by simp
qed

section \<open>The retry loop: one turn, and all its turns\<close>

lemma update_status_fields [simp]:
  "trace (update_status E m s) = trace s @ [Status m]"
  "calls (update_status E m s) = calls s"
  "updates (update_status E m s) = Suc (updates s)"
  "completed_searches (update_status E m s) = completed_searches s"
  "running (update_status E m s) = notify E (updates s) m (running s)"
  by (simp_all add: update_status_def)

lemma log_error_fields [simp]:
  "trace (log_error m s) = trace s @ [LogError m]"
  "calls (log_error m s) = calls s"
  "updates (log_error m s) = updates s"
  "completed_searches (log_error m s) = completed_searches s"
  "running (log_error m s) = running s"
  by (simp_all add: log_error_def)

lemma never_cancelsD: "never_cancels E \<Longrightarrow> notify E n m True"
  by (simp add: never_cancels_def)

lemma single_search_raises: "fst (single_search E t i n s) = search_raises E (calls s)"
  by (simp add: single_search_def search_raises_def Let_def split: option.splits)

lemma single_search_fields [simp]:
  "calls (snd (single_search E t i n s)) = Suc (calls s)"
  "completed_searches (snd (single_search E t i n s)) = completed_searches s"
  "filter is_search (trace (snd (single_search E t i n s)))
     = filter is_search (trace s) @ [Search t i n]"
  by (simp_all add: single_search_def Let_def split: option.splits)

lemma single_search_running:
  "never_cancels E \<Longrightarrow> running s \<Longrightarrow> running (snd (single_search E t i n s))"
  by (simp add: single_search_def Let_def never_cancelsD split: option.splits)

lemma py_lt_bound [simp]: "loop_bound v = Some m \<Longrightarrow> py_lt r v = Some (r < m)"
  by (cases v) (auto simp: less_ceiling_iff)

lemma py_lt_no_bound [simp]: "loop_bound v = None \<Longrightarrow> py_lt r v = None"
  by (cases v) auto

text \<open>One turn of the loop, by what the search raises.\<close>

lemma retry_loop_leave:
  assumes "map_of config ''max_retries'' = Some v" "loop_bound v = Some m"
    and "\<not> (retries < m \<and> running s)"
  shows "retry_loop E config t i n retries s = (None, s)"
  using assms by (subst retry_loop.simps) auto

lemma retry_loop_completed:
  assumes "map_of config ''max_retries'' = Some v" "loop_bound v = Some m"
    and "retries < m" "running s"
    and "search_raises E (calls s) = None"
  shows "retry_loop E config t i n retries s =
           (None, (snd (single_search E t i n s))
                    \<lparr>completed_searches := Suc (completed_searches s)\<rparr>)"
proof -
  obtain r s1 where ss: "single_search E t i n s = (r, s1)" by (cases "single_search E t i n s")
  have "r = None" using single_search_raises [of E t i n s] assms(5) by (simp add: ss)
  moreover have "completed_searches s1 = completed_searches s"
    using single_search_fields(2) [of E t i n s] by (simp add: ss)
  ultimately show ?thesis
    using assms(1-4) by (subst retry_loop.simps) (simp add: ss)
qed

lemma retry_loop_timeout:
  assumes "map_of config ''max_retries'' = Some v" "loop_bound v = Some m"
    and "retries < m" "running s"
    and "search_raises E (calls s) = Some (TimeoutException msg)"
  shows "retry_loop E config t i n retries s =
           retry_loop E config t i n (retries + 1) (after_timeout E t i n retries v s)"
proof -
  obtain r s1 where ss: "single_search E t i n s = (r, s1)" by (cases "single_search E t i n s")
  have "r = Some (TimeoutException msg)"
    using single_search_raises [of E t i n s] assms(5) by (simp add: ss)
  then show ?thesis
    using assms(1-4) by (subst retry_loop.simps) (simp add: ss after_timeout_def Let_def)
qed

lemma retry_loop_fatal:
  assumes "map_of config ''max_retries'' = Some v" "loop_bound v = Some m"
    and "retries < m" "running s"
    and "search_raises E (calls s) = Some (WebDriverException msg)"
  shows "retry_loop E config t i n retries s =
           (Some (WebDriverException msg),
            log_error (''Error de WebDriver: '' @ msg) (snd (single_search E t i n s)))"
proof -
  obtain r s1 where ss: "single_search E t i n s = (r, s1)" by (cases "single_search E t i n s")
  have "r = Some (WebDriverException msg)"
    using single_search_raises [of E t i n s] assms(5) by (simp add: ss)
  then show ?thesis
    using assms(1-4) by (subst retry_loop.simps) (simp add: ss)
qed

lemma retry_loop_other:
  assumes "map_of config ''max_retries'' = Some v" "loop_bound v = Some m"
    and "retries < m" "running s"
    and "search_raises E (calls s) = Some e"
    and "\<forall>msg. e \<noteq> TimeoutException msg" "\<forall>msg. e \<noteq> WebDriverException msg"
  shows "retry_loop E config t i n retries s = (Some e, snd (single_search E t i n s))"
proof -
  obtain r s1 where ss: "single_search E t i n s = (r, s1)" by (cases "single_search E t i n s")
  have "r = Some e"
    using single_search_raises [of E t i n s] assms(5) by (simp add: ss)
  then show ?thesis
    using assms(1-4,6,7) by (subst retry_loop.simps) (cases e; simp add: ss)
qed

lemma after_timeout_fields [simp]:
  "calls (after_timeout E t i n retries v s) = Suc (calls s)"
  "completed_searches (after_timeout E t i n retries v s) = completed_searches s"
  "filter is_search (trace (after_timeout E t i n retries v s))
     = filter is_search (trace s) @ [Search t i n]"
  by (simp_all add: after_timeout_def Let_def)

lemma after_timeout_running:
  "never_cancels E \<Longrightarrow> running s \<Longrightarrow> running (after_timeout E t i n retries v s)"
  by (simp add: after_timeout_def Let_def never_cancelsD single_search_running)


lemma retry_loop_all_timeouts:
  assumes cfg: "map_of config ''max_retries'' = Some (PInt R)"
    and nc: "never_cancels E"
  shows "running s \<Longrightarrow> retries \<le> R \<Longrightarrow> d = nat (R - retries) \<Longrightarrow>
     (\<And>k. calls s \<le> k \<Longrightarrow> k < calls s + d \<Longrightarrow>
           \<exists>msg. search_raises E k = Some (TimeoutException msg)) \<Longrightarrow>
     \<exists>s'. retry_loop E config t i n retries s = (None, s') \<and> running s'
          \<and> completed_searches s' = completed_searches s
          \<and> calls s' = calls s + d
          \<and> filter is_search (trace s')
              = filter is_search (trace s) @ replicate d (Search t i n)"
proof (induction d arbitrary: retries s)
  case 0
  then have "retry_loop E config t i n retries s = (None, s)"
    using cfg by (intro retry_loop_leave [where v = "PInt R" and m = R]) auto
  then show ?case using "0.prems"(1) by simp
next
  case (Suc d)
  from Suc.prems(3) have lt: "retries < R" by linarith
  from Suc.prems(4) [of "calls s"] obtain msg
    where to: "search_raises E (calls s) = Some (TimeoutException msg)" by auto
  let ?s = "after_timeout E t i n retries (PInt R) s"
  have step: "retry_loop E config t i n retries s = retry_loop E config t i n (retries + 1) ?s"
    using cfg lt Suc.prems(1) to
    by (intro retry_loop_timeout [where msg = msg]) auto
  have run: "running ?s" using nc Suc.prems(1) by (rule after_timeout_running)
  have d: "d = nat (R - (retries + 1))" using Suc.prems(3) by linarith
  have win: "\<exists>msg. search_raises E k = Some (TimeoutException msg)"
    if "calls ?s \<le> k" "k < calls ?s + d" for k
    using that Suc.prems(4) [of k] by simp
  from Suc.IH [OF run _ d win] lt obtain s'
    where s': "retry_loop E config t i n (retries + 1) ?s = (None, s')" "running s'"
      "completed_searches s' = completed_searches ?s" "calls s' = calls ?s + d"
      "filter is_search (trace s') = filter is_search (trace ?s) @ replicate d (Search t i n)"
    by auto
  show ?case
    using s' step by (simp add: replicate_append_same)
qed

lemma retry_loop_no_limit:
  assumes "\<forall>v m. map_of config ''max_retries'' = Some v \<longrightarrow> loop_bound v \<noteq> Some m"
  shows "snd (retry_loop E config t i n retries s) = s"
  using assms by (subst retry_loop.simps) (auto split: option.splits)

lemma retry_limit_cases:
  obtains (limit) v m where "map_of config ''max_retries'' = Some v" "loop_bound v = Some m"
      "retry_limit config = m"
  | (none) "\<forall>v m. map_of config ''max_retries'' = Some v \<longrightarrow> loop_bound v \<noteq> Some m"
proof (cases "map_of config ''max_retries''")
  case None
  then show ?thesis using none by simp
next
  case (Some v)
  show ?thesis
  proof (cases "loop_bound v")
    case None
    then show ?thesis using none Some by simp
  next
    case (Some m)
    then show ?thesis using limit [of v m] \<open>map_of config ''max_retries'' = Some v\<close>
      by (simp add: retry_limit_def)
  qed
qed

lemma retry_loop_calls_bound:
  "d = nat (retry_limit config - retries) \<Longrightarrow>
     calls (snd (retry_loop E config t i n retries s)) \<le> calls s + d"
proof (induction d arbitrary: retries s)
  case 0
  show ?case
    using "0.prems"
    by (subst retry_loop.simps) (auto simp: retry_limit_def split: option.splits)
next
  case (Suc d)
  show ?case
  proof (cases config rule: retry_limit_cases)
    case none
    then show ?thesis by (simp add: retry_loop_no_limit)
  next
    case (limit v m)
    note cfg = limit(1,2)
    have lt: "retries < m" using Suc.prems limit(3) by linarith
  show ?thesis
  proof (cases "running s")
    case False
    then show ?thesis using retry_loop_leave [OF cfg, of retries s E t i n] by simp
  next
    case True
    show ?thesis
    proof (cases "search_raises E (calls s)")
      case None
      then show ?thesis using retry_loop_completed [OF cfg lt True, of E t i n] by simp
    next
      case (Some e)
      show ?thesis
      proof (cases e)
        case (TimeoutException msg)
        have "d = nat (retry_limit config - (retries + 1))" using Suc.prems by linarith
        from Suc.IH [OF this, of "after_timeout E t i n retries v s"]
        show ?thesis
          using retry_loop_timeout [OF cfg lt True, of E msg t i n] Some TimeoutException
          by simp
      next
        case (WebDriverException msg)
        then show ?thesis
          using retry_loop_fatal [OF cfg lt True, of E msg t i n] Some by simp
      qed (use retry_loop_other [OF cfg lt True, of E e t i n] Some in simp_all)
    qed
  qed
  qed
qed

lemma retry_loop_fatal_last:
  assumes wd: "search_raises E K = Some (WebDriverException msg)"
  shows "d = nat (retry_limit config - retries) \<Longrightarrow> calls s \<le> K \<Longrightarrow>
     calls (snd (retry_loop E config t i n retries s)) \<le> Suc K
     \<and> (calls (snd (retry_loop E config t i n retries s)) = Suc K \<longrightarrow>
          fst (retry_loop E config t i n retries s) = Some (WebDriverException msg))"
proof (induction d arbitrary: retries s)
  case 0
  have "snd (retry_loop E config t i n retries s) = s"
    using "0.prems"(1)
    by (subst retry_loop.simps) (auto simp: retry_limit_def split: option.splits)
  then show ?case using "0.prems"(2) by simp
next
  case (Suc d)
  show ?case
  proof (cases config rule: retry_limit_cases)
    case none
    then show ?thesis using Suc.prems(2) by (simp add: retry_loop_no_limit)
  next
    case (limit v m)
    note cfg = limit(1,2)
    have lt: "retries < m" using Suc.prems limit(3) by linarith
  show ?thesis
  proof (cases "running s")
    case False
    then show ?thesis using retry_loop_leave [OF cfg, of retries s E t i n] Suc.prems(2) by simp
  next
    case True
    show ?thesis
    proof (cases "calls s = K")
      case here: True
      then show ?thesis
        using retry_loop_fatal [OF cfg lt True, of E msg t i n] wd by simp
    next
      case False
      then have before: "Suc (calls s) \<le> K" using Suc.prems(2) by simp
      show ?thesis
      proof (cases "search_raises E (calls s)")
        case None
        then show ?thesis
          using retry_loop_completed [OF cfg lt True, of E t i n] before by simp
      next
        case (Some e)
        show ?thesis
        proof (cases e)
          case (TimeoutException msg')
          have "d = nat (retry_limit config - (retries + 1))" using Suc.prems by linarith
          from Suc.IH [OF this, of "after_timeout E t i n retries v s"] before
          show ?thesis
            using retry_loop_timeout [OF cfg lt True, of E msg' t i n] Some TimeoutException
            by simp
        next
          case (WebDriverException msg')
          then show ?thesis
            using retry_loop_fatal [OF cfg lt True, of E msg' t i n] Some before by simp
        qed (use retry_loop_other [OF cfg lt True, of E e t i n] Some before in simp_all)
      qed
    qed
  qed
  qed
qed

section \<open>The loop over the terms and the frame of perform_search\<close>


lemma search_loop_fatal_last:
  assumes wd: "search_raises E K = Some (WebDriverException msg)"
  shows "calls s \<le> K \<Longrightarrow>
     calls (snd (search_loop E config n ps s)) \<le> Suc K
     \<and> (calls (snd (search_loop E config n ps s)) = Suc K \<longrightarrow>
          fst (search_loop E config n ps s) = Some (WebDriverException msg))"
proof (induction ps arbitrary: s)
  case Nil
  then show ?case by simp
next
  case (Cons p ps)
  obtain i t where p: "p = (i, t)" by (cases p)
  show ?case
  proof (cases "running s")
    case False
    then show ?thesis using Cons.prems by (simp add: p)
  next
    case True
    obtain r s1 where rl: "retry_loop E config t i n 0 s = (r, s1)"
      by (cases "retry_loop E config t i n 0 s")
    from retry_loop_fatal_last [OF wd refl Cons.prems, where config = config and retries = 0
        and t = t and i = i and n = n]
    have inv: "calls s1 \<le> Suc K" "calls s1 = Suc K \<longrightarrow> r = Some (WebDriverException msg)"
      by (simp_all add: rl)
    show ?thesis
    proof (cases r)
      case (Some e)
      then show ?thesis using True inv by (simp add: p rl)
    next
      case None
      then have "calls s1 \<le> K" using inv by (cases "calls s1 = Suc K") auto
      from Cons.IH [OF this] show ?thesis using True None by (simp add: p rl)
    qed
  qed
qed


lemma setup_driver_opens:
  assumes "session_opens E config"
  shows "\<exists>h tmo. map_of config ''headless_mode'' = Some h
           \<and> map_of config ''page_load_timeout'' = Some tmo
           \<and> setup_driver E config driver_path s =
               (Inr (), s\<lparr>trace := trace s @ [Launch driver_path (browser_arguments h),
                                                SetTimeout tmo]\<rparr>)"
  using assms
  by (auto simp: session_opens_def setup_driver_def browser_arguments_def Let_def
      split: option.splits)

lemma setup_driver_fails:
  assumes "\<not> session_opens E config"
  shows "\<exists>e s'. setup_driver E config driver_path s = (Inl e, s')
           \<and> completed_searches s' = completed_searches s \<and> calls s' = calls s
           \<and> running s' = running s
           \<and> filter is_search (trace s') = filter is_search (trace s)
           \<and> filter is_log_error (trace s') = filter is_log_error (trace s)
           \<and> filter is_status (trace s') = filter is_status (trace s)"
  using assms
  by (auto simp: session_opens_def setup_driver_def Let_def split: option.splits)

lemma close_session_fields [simp]:
  "trace (close_session E True s) = trace s @ [Quit]"
  "calls (close_session E d s) = calls s"
  "completed_searches (close_session E d s) = completed_searches s"
  "running (close_session E d s) = running s"
  "updates (close_session E d s) = updates s"
  by (simp_all add: close_session_def split: option.splits)

lemma perform_search_valid:
  assumes "file_system E search_file = Regular (Inr body)"
    and "isfile E driver_path"
    and "search_terms body \<noteq> []"
  shows "perform_search E config search_file driver_path s =
     (case setup_driver E config driver_path
             (s\<lparr>trace := trace s @ [ReadFile search_file], completed_searches := 0\<rparr>) of
        (Inl e, s') \<Rightarrow>
          (Some e, update_status E
             (completed_message (completed_searches s') (length (search_terms body))) s')
      | (Inr u, s') \<Rightarrow>
          (fst (search_loop E config (length (search_terms body))
                  (enumerate 1 (search_terms body)) s'),
           update_status E
             (completed_message
                (completed_searches (snd (search_loop E config (length (search_terms body))
                  (enumerate 1 (search_terms body)) s')))
                (length (search_terms body)))
             (close_session E True (snd (search_loop E config (length (search_terms body))
                  (enumerate 1 (search_terms body)) s')))))"
proof -
  let ?s1 = "s\<lparr>trace := trace s @ [ReadFile search_file], completed_searches := 0\<rparr>"
  have files: "isfile E search_file \<and> isfile E driver_path"
    using assms(1,2) by (simp add: isfile_def)
  have rd: "read_searches E search_file s
              = (Inr (search_terms body), s\<lparr>trace := trace s @ [ReadFile search_file]\<rparr>)"
    using assms(1) by (simp add: read_searches_def)
  obtain res s' where sd: "setup_driver E config driver_path ?s1 = (res, s')"
    by (cases "setup_driver E config driver_path ?s1")
  show ?thesis
  proof (cases res)
    case (Inl e)
    then show ?thesis
      using files rd assms(3) sd
      by (simp add: perform_search_def close_session_def)
  next
    case (Inr u)
    obtain r s'' where sl: "search_loop E config (length (search_terms body))
                              (enumerate 1 (search_terms body)) s' = (r, s'')"
      by (cases "search_loop E config (length (search_terms body))
                   (enumerate 1 (search_terms body)) s'")
    show ?thesis
      using files rd assms(3) sd Inr sl
      by (simp add: perform_search_def Let_def)
  qed
qed

lemma perform_search_opened:
  assumes "file_system E search_file = Regular (Inr body)"
    and "isfile E driver_path"
    and "search_terms body \<noteq> []"
    and "map_of config ''headless_mode'' = Some h"
    and "map_of config ''page_load_timeout'' = Some tmo"
    and "session_opens E config"
    and "s0 = s\<lparr>trace := trace s @ [ReadFile search_file,
                     Launch driver_path (browser_arguments h), SetTimeout tmo],
                  completed_searches := 0\<rparr>"
    and "sl = snd (search_loop E config (length (search_terms body))
                     (enumerate 1 (search_terms body)) s0)"
  shows "perform_search E config search_file driver_path s =
     (fst (search_loop E config (length (search_terms body))
             (enumerate 1 (search_terms body)) s0),
      update_status E
        (completed_message (completed_searches sl) (length (search_terms body)))
        (close_session E True sl))"
proof -
  from setup_driver_opens [OF assms(6), of driver_path
      "s\<lparr>trace := trace s @ [ReadFile search_file], completed_searches := 0\<rparr>"]
  have "setup_driver E config driver_path
          (s\<lparr>trace := trace s @ [ReadFile search_file], completed_searches := 0\<rparr>)
        = (Inr (), s0)"
    using assms(4,5,7) by auto
  then show ?thesis
    using assms(8) by (simp add: perform_search_valid [OF assms(1-3)])
qed

section \<open>Validation and cancellation\<close>

lemma example_terms: "search_terms ''cats\<newline>dogs\<newline>\<newline>'' = [''cats'', ''dogs'']"
  by (simp add: search_terms_def file_lines_def strip_def isspace_def)

lemma example_env_fields [simp]:
  "file_system example_env = example_files" "launch example_env = None"
  "set_timeout example_env = None" "quit example_env = None"
  "status_callback example_env = None" "drive example_env = (\<lambda>k x. None)"
  by (simp_all add: example_env_def)

lemma example_files_simps [simp]:
  "example_files ''terms.txt'' = Regular (Inr ''cats\<newline>dogs\<newline>\<newline>'')"
  "example_files ''msedgedriver.exe'' = Regular (Inr [])"
  "example_files ''missing.exe'' = Absent"
  by (simp_all add: example_files_def)

lemma example_isfile [simp]:
  "isfile example_env ''terms.txt''" "isfile example_env ''msedgedriver.exe''"
  "\<not> isfile example_env ''missing.exe''"
  "isfile timeout_env ''msedgedriver.exe''" "isfile fatal_env ''msedgedriver.exe''"
  "file_system timeout_env ''terms.txt'' = Regular (Inr ''cats\<newline>dogs\<newline>\<newline>'')"
  "file_system fatal_env ''terms.txt'' = Regular (Inr ''cats\<newline>dogs\<newline>\<newline>'')"
  by (simp_all add: isfile_def timeout_env_def fatal_env_def)

lemma example_never_cancels [simp]:
  "never_cancels example_env" "never_cancels timeout_env" "never_cancels fatal_env"
  by (simp_all add: never_cancels_def notify_def timeout_env_def fatal_env_def)

lemma example_session_opens [simp]:
  "session_opens example_env DEFAULT_CONFIG" "session_opens timeout_env DEFAULT_CONFIG"
  "session_opens fatal_env DEFAULT_CONFIG"
  by (simp_all add: session_opens_def setup_driver_def DEFAULT_CONFIG_def timeout_env_def
      fatal_env_def)

lemma example_search_raises [simp]:
  "search_raises example_env k = None"
  "search_raises timeout_env k = Some (TimeoutException ''page load'')"
  "search_raises fatal_env k = Some (WebDriverException ''no such window'')"
  by (simp_all add: search_raises_def single_search_def timeout_env_def fatal_env_def)

text \<open>
  Claim C6. When the driver path or the search file is not an existing regular file,
  \<^verbatim>\<open>perform_search\<close> raises \<^verbatim>\<open>FileNotFoundError\<close> and leaves the state as it found
  it: the term file has not been read and no browser has been launched.
\<close>

theorem perform_search_not_found:
  assumes "\<not> isfile E driver_path \<or> \<not> isfile E search_file"
  shows "perform_search E config search_file driver_path s =
           (Some (FileNotFoundError
                    (''Archivo de '' @ busquedas @ '' o WebDriver no encontrado'')), s)"
  using assms by (auto simp: perform_search_def)

theorem perform_search_not_found_witness:
  "\<not> isfile example_env ''missing.exe''
   \<and> perform_search example_env DEFAULT_CONFIG ''terms.txt'' ''missing.exe'' new_runner =
       (Some (FileNotFoundError
                (''Archivo de '' @ busquedas @ '' o WebDriver no encontrado'')), new_runner)"
  using perform_search_not_found [of example_env "''missing.exe''" "''terms.txt''"
      DEFAULT_CONFIG new_runner]
  by simp


lemma enumerate_eq_Nil [simp]: "enumerate k xs = [] \<longleftrightarrow> xs = []"
  by (cases xs) simp_all





section \<open>No retries, and nothing but timeouts\<close>





section \<open>Closing the session\<close>

lemma notify_quit [simp]: "notify (E\<lparr>quit := q\<rparr>) = notify E"
  by (simp add: fun_eq_iff notify_def)

lemma update_status_quit [simp]: "update_status (E\<lparr>quit := q\<rparr>) = update_status E"
  by (simp add: fun_eq_iff update_status_def)

lemma single_search_quit [simp]: "single_search (E\<lparr>quit := q\<rparr>) = single_search E"
  by (simp add: fun_eq_iff single_search_def Let_def split: option.splits)

lemma setup_driver_quit [simp]: "setup_driver (E\<lparr>quit := q\<rparr>) = setup_driver E"
  by (simp add: fun_eq_iff setup_driver_def Let_def split: option.splits)

lemma validation_quit [simp]:
  "isfile (E\<lparr>quit := q\<rparr>) = isfile E"
  "read_searches (E\<lparr>quit := q\<rparr>) = read_searches E"
  by (simp_all add: fun_eq_iff isfile_def read_searches_def)

lemma close_session_quit [simp]:
  "close_session (E\<lparr>quit := q\<rparr>) driver s = close_session E driver s"
  by (simp add: close_session_def split: option.splits)

lemma retry_loop_quit [simp]:
  "retry_loop (E\<lparr>quit := q\<rparr>) config t i n retries s = retry_loop E config t i n retries s"
proof (induct E config t i n retries s rule: retry_loop.induct)
  case (1 E config t i n retries s)
  show ?case
    by (subst (1 2) retry_loop.simps)
       (auto simp: Let_def "1.hyps" split: option.splits prod.splits exn.splits)
qed

lemma search_loop_quit [simp]:
  "search_loop (E\<lparr>quit := q\<rparr>) config n ps s = search_loop E config n ps s"
  by (induction E config n ps s rule: search_loop.induct) (auto split: prod.splits option.splits)

lemma perform_search_quit:
  "perform_search (E\<lparr>quit := q\<rparr>) config search_file driver_path s
     = perform_search E config search_file driver_path s"
  by (simp add: perform_search_def Let_def split: prod.splits sum.splits)


lemma single_search_trace:
  "\<exists>evs. trace (snd (single_search E t i n s)) = trace s @ evs"
  by (simp add: single_search_def Let_def split: option.splits)

lemma retry_loop_trace:
  "\<exists>evs. trace (snd (retry_loop E config t i n retries s)) = trace s @ evs"
proof (induct E config t i n retries s rule: retry_loop.induct)
  case (1 E config t i n retries s)
  show ?case
  proof (cases config rule: retry_limit_cases)
    case none
    then show ?thesis by (simp add: retry_loop_no_limit)
  next
    case (limit v m)
    note cfg = limit(1,2)
    show ?thesis
    proof (cases "retries < m \<and> running s")
      case False
      then show ?thesis using retry_loop_leave [OF cfg, of retries s E t i n] by simp
    next
      case True
      then have lt: "retries < m" and run: "running s" by simp_all
      obtain r s1 where ss: "single_search E t i n s = (r, s1)"
        by (cases "single_search E t i n s")
      from single_search_trace [of E t i n s] obtain evs1
        where evs1: "trace s1 = trace s @ evs1" by (auto simp: ss)
      have raises: "search_raises E (calls s) = r"
        using single_search_raises [of E t i n s] by (simp add: ss)
      show ?thesis
      proof (cases r)
        case None
        then show ?thesis
          using retry_loop_completed [OF cfg lt run, of E t i n] raises evs1 by (simp add: ss)
      next
        case (Some e)
        show ?thesis
        proof (cases e)
          case (TimeoutException msg)
          let ?s2 = "update_status E (timeout_message t (retries + 1) v) s1"
          let ?s3 = "if py_eq (retries + 1) v
                     then log_error (failure_message t (retries + 1)) ?s2 else ?s2"
          have below: "py_lt retries v = Some True" "True \<and> running s"
            using cfg(2) lt run by simp_all
          from "1.hyps" [OF cfg(1) below ss [symmetric] Some TimeoutException refl refl]
          obtain evs where "trace (snd (retry_loop E config t i n (retries + 1) ?s3))
                              = trace ?s3 @ evs"
            by blast
          moreover have "after_timeout E t i n retries v s = ?s3"
            by (simp add: after_timeout_def ss)
          ultimately show ?thesis
            using retry_loop_timeout [OF cfg lt run, of E msg t i n] raises Some
              TimeoutException evs1
            by simp
        next
          case (WebDriverException msg)
          then show ?thesis
            using retry_loop_fatal [OF cfg lt run, of E msg t i n] raises Some evs1
            by (simp add: ss)
        qed (use retry_loop_other [OF cfg lt run, of E e t i n] raises Some evs1
             in \<open>simp_all add: ss\<close>)
      qed
    qed
  qed
qed

lemma search_loop_trace:
  "\<exists>evs. trace (snd (search_loop E config n ps s)) = trace s @ evs"
proof (induction ps arbitrary: s)
  case Nil
  show ?case by simp
next
  case (Cons p ps)
  obtain i t where p: "p = (i, t)" by (cases p)
  obtain r s1 where rl: "retry_loop E config t i n 0 s = (r, s1)"
    by (cases "retry_loop E config t i n 0 s")
  from retry_loop_trace [of E config t i n 0 s] obtain evs1
    where evs1: "trace s1 = trace s @ evs1" by (auto simp: rl)
  from Cons.IH [of s1] obtain evs2
    where evs2: "trace (snd (search_loop E config n ps s1)) = trace s1 @ evs2" by blast
  show ?case
    using evs1 evs2 by (cases r) (simp_all add: p rl)
qed

text \<open>
  The \<^verbatim>\<open>finally\<close> of \<^verbatim>\<open>perform_search\<close>. Once the term file is valid, whatever
  happens afterwards, the last event of the run is the status report of the completed
  count out of the number of terms. When \<^verbatim>\<open>setup_driver\<close> has returned the handle,
  the run ends, whether the loop returned, was cancelled or raised, with
  \<^verbatim>\<open>driver.quit()\<close> and then that report; and what \<^verbatim>\<open>driver.quit()\<close> raises changes
  neither the result nor the state.
\<close>

lemma session_always_closed:
  assumes "file_system E search_file = Regular (Inr body)"
    and "isfile E driver_path"
    and "search_terms body \<noteq> []"
  shows "last (trace (snd (perform_search E config search_file driver_path s)))
           = Status (completed_message
                       (completed_searches (snd (perform_search E config search_file driver_path s)))
                       (length (search_terms body)))
     \<and> (session_opens E config \<longrightarrow>
          (\<exists>evs. trace (snd (perform_search E config search_file driver_path s))
                   = trace s @ evs
                     @ [Quit,
                        Status (completed_message
                          (completed_searches
                             (snd (perform_search E config search_file driver_path s)))
                          (length (search_terms body)))]))
     \<and> perform_search (E\<lparr>quit := q\<rparr>) config search_file driver_path s
         = perform_search E config search_file driver_path s"
proof (intro conjI impI)
  show "perform_search (E\<lparr>quit := q\<rparr>) config search_file driver_path s
          = perform_search E config search_file driver_path s"
    by (rule perform_search_quit)
next
  let ?s1 = "s\<lparr>trace := trace s @ [ReadFile search_file], completed_searches := 0\<rparr>"
  obtain res s' where sd: "setup_driver E config driver_path ?s1 = (res, s')"
    by (cases "setup_driver E config driver_path ?s1")
  show "last (trace (snd (perform_search E config search_file driver_path s)))
           = Status (completed_message
                       (completed_searches (snd (perform_search E config search_file driver_path s)))
                       (length (search_terms body)))"
    by (cases res) (simp_all add: perform_search_valid [OF assms] sd)
next
  assume opens: "session_opens E config"
  from setup_driver_opens [OF opens, of driver_path s] obtain h tmo
    where keys: "map_of config ''headless_mode'' = Some h"
      "map_of config ''page_load_timeout'' = Some tmo"
    by auto
  let ?s0 = "s\<lparr>trace := trace s @ [ReadFile search_file,
                     Launch driver_path (browser_arguments h), SetTimeout tmo],
                completed_searches := 0\<rparr>"
  from search_loop_trace [of E config "length (search_terms body)"
      "enumerate 1 (search_terms body)" ?s0]
  obtain evs where "trace (snd (search_loop E config (length (search_terms body))
                      (enumerate 1 (search_terms body)) ?s0)) = trace ?s0 @ evs"
    by blast
  then show "\<exists>evs. trace (snd (perform_search E config search_file driver_path s))
                   = trace s @ evs
                     @ [Quit,
                        Status (completed_message
                          (completed_searches
                             (snd (perform_search E config search_file driver_path s)))
                          (length (search_terms body)))]"
    by (simp add: perform_search_opened [OF assms keys opens refl refl])
qed

section \<open>The scenario of two terms\<close>

lemma session_always_closed_example:
  "file_system fatal_env ''terms.txt'' = Regular (Inr ''cats\<newline>dogs\<newline>\<newline>'')
   \<and> isfile fatal_env ''msedgedriver.exe''
   \<and> search_terms ''cats\<newline>dogs\<newline>\<newline>'' = [''cats'', ''dogs'']
   \<and> session_opens fatal_env DEFAULT_CONFIG
   \<and> (\<exists>evs. trace (snd (perform_search fatal_env DEFAULT_CONFIG ''terms.txt''
                            ''msedgedriver.exe'' new_runner))
              = evs @ [Quit,
                       Status (completed_message
                         (completed_searches
                            (snd (perform_search fatal_env DEFAULT_CONFIG ''terms.txt''
                                    ''msedgedriver.exe'' new_runner))) 2)])"
proof -
  have ne: "search_terms ''cats\<newline>dogs\<newline>\<newline>'' \<noteq> []"
    by (simp add: example_terms)
  show ?thesis
    using session_always_closed [OF _ _ ne, of fatal_env "''terms.txt''" "''msedgedriver.exe''"
        DEFAULT_CONFIG new_runner]
    by (simp add: example_terms) (simp add: new_runner_def numeral_2_eq_2)
qed

lemma str_nat_small:
  "str_nat 0 = ''0''" "str_nat 1 = ''1''" "str_nat 2 = ''2''" "str_nat 3 = ''3''"
  "str_nat (Suc 0) = ''1''" "str_nat (Suc (Suc 0)) = ''2''"
  by code_simp+

lemma single_search_returns:
  assumes "search_raises E (calls s) = None"
  shows "single_search E t i n s =
           (None, update_status E (searching_message i n t)
                    (s\<lparr>trace := trace s @ [Search t i n], calls := Suc (calls s)\<rparr>))"
  using assms
  by (simp add: search_raises_def single_search_def Let_def new_runner_def
      split: option.splits)

text \<open>
  Claim C8. The term file holds the lines \<^verbatim>\<open>cats\<close>, \<^verbatim>\<open>dogs\<close> and a blank line,
  \<^verbatim>\<open>max_retries\<close> is 3, the browser opens, nobody cancels and every search returns.
  Then the terms are \<^verbatim>\<open>cats\<close> and \<^verbatim>\<open>dogs\<close>, \<^verbatim>\<open>perform_search\<close> returns, and the
  events of the run are exactly: the file read, the browser launched, one search and its
  status for each term, no retry, the session closed, and the status
  \<^verbatim>\<open>Completadas 2/2\<close> followed by the word for searches (its second letter is
  the character 250, u with an acute accent).
\<close>

theorem two_terms_scenario:
  assumes "file_system E search_file = Regular (Inr ''cats\<newline>dogs\<newline>\<newline>'')"
    and "isfile E driver_path"
    and "map_of config ''max_retries'' = Some (PInt 3)"
    and "map_of config ''headless_mode'' = Some h"
    and "map_of config ''page_load_timeout'' = Some tmo"
    and "session_opens E config"
    and "running s"
    and "never_cancels E"
    and "\<forall>k. search_raises E k = None"
  shows "search_terms ''cats\<newline>dogs\<newline>\<newline>'' = [''cats'', ''dogs'']
     \<and> fst (perform_search E config search_file driver_path s) = None
     \<and> trace (snd (perform_search E config search_file driver_path s))
         = trace s @ [ReadFile search_file,
                      Launch driver_path (browser_arguments h),
                      SetTimeout tmo,
                      Search ''cats'' 1 2,
                      Status ''Buscando (1/2): cats'',
                      Search ''dogs'' 2 2,
                      Status ''Buscando (2/2): dogs'',
                      Quit,
                      Status (''Completadas 2/2 b'' @ [CHR 0xFA] @ ''squedas'')]
     \<and> calls (snd (perform_search E config search_file driver_path s)) = calls s + 2
     \<and> completed_searches (snd (perform_search E config search_file driver_path s)) = 2"
proof -
  have ne: "search_terms ''cats\<newline>dogs\<newline>\<newline>'' \<noteq> []"
    by (simp add: example_terms)
  have cfg: "loop_bound (PInt 3) = Some 3" by simp
  have one: "retry_loop E config t i n 0 u =
               (None, (update_status E (searching_message i n t)
                         (u\<lparr>trace := trace u @ [Search t i n], calls := Suc (calls u)\<rparr>))
                      \<lparr>completed_searches := Suc (completed_searches u)\<rparr>)"
    if "running u" for t i n u
    using retry_loop_completed [OF assms(3) cfg _ that, of 0 E t i n] assms(9)
    by (simp add: single_search_returns)
  have keep: "notify E k m True" for k m
    using assms(8) by (rule never_cancelsD)
  show ?thesis
    by (simp add: perform_search_opened [OF assms(1,2) ne assms(4,5,6) refl refl]
        example_terms one assms(7) keep)
       (simp add: searching_message_def completed_message_def busquedas_def str_nat_small)
qed

theorem two_terms_scenario_witness:
  "file_system example_env ''terms.txt'' = Regular (Inr ''cats\<newline>dogs\<newline>\<newline>'')
   \<and> isfile example_env ''msedgedriver.exe''
   \<and> map_of DEFAULT_CONFIG ''max_retries'' = Some (PInt 3)
   \<and> session_opens example_env DEFAULT_CONFIG
   \<and> running new_runner
   \<and> never_cancels example_env
   \<and> (\<forall>k. search_raises example_env k = None)
   \<and> perform_search example_env DEFAULT_CONFIG ''terms.txt'' ''msedgedriver.exe'' new_runner
       = (None,
          \<lparr>running = True,
           trace = [ReadFile ''terms.txt'',
                    Launch ''msedgedriver.exe'' [''--start-maximized'', ''--disable-extensions''],
                    SetTimeout (PInt 30),
                    Search ''cats'' 1 2,
                    Status ''Buscando (1/2): cats'',
                    Search ''dogs'' 2 2,
                    Status ''Buscando (2/2): dogs'',
                    Quit,
                    Status (''Completadas 2/2 b'' @ [CHR 0xFA] @ ''squedas'')],
           updates = 3, calls = 2, completed_searches = 2\<rparr>)"
proof -
  have run: "running new_runner" by (simp add: new_runner_def)
  have ok: "\<forall>k. search_raises example_env k = None" by simp
  have upd: "updates (snd (perform_search example_env DEFAULT_CONFIG ''terms.txt''
                             ''msedgedriver.exe'' new_runner)) = 3
             \<and> running (snd (perform_search example_env DEFAULT_CONFIG ''terms.txt''
                             ''msedgedriver.exe'' new_runner))"
    by (simp add: perform_search_def read_searches_def example_terms setup_driver_def
        default_keys new_runner_def retry_loop.simps single_search_def update_status_def
        notify_def close_session_def Let_def numeral_2_eq_2)
  show ?thesis
    using two_terms_scenario [OF _ _ _ _ _ _ run _ ok, of "''terms.txt''" "''msedgedriver.exe''"
        DEFAULT_CONFIG "PBool False" "PInt 30"] upd run
    by (cases "perform_search example_env DEFAULT_CONFIG ''terms.txt'' ''msedgedriver.exe''
                 new_runner")
       (auto simp: default_keys browser_arguments_def new_runner_def)
qed

section \<open>Retries, fatal errors and the session a failed setup leaves open\<close>

lemma perform_search_invalid:
  assumes "\<not> (\<exists>body. file_system E search_file = Regular (Inr body) \<and> isfile E driver_path
                    \<and> search_terms body \<noteq> [])"
  shows "calls (snd (perform_search E config search_file driver_path s)) = calls s"
  using assms
  by (auto simp: perform_search_def read_searches_def isfile_def
      split: fentry.splits sum.splits)

lemma perform_search_fatal_last:
  assumes wd: "search_raises E K = Some (WebDriverException msg)"
    and le: "calls s \<le> K"
  shows "calls (snd (perform_search E config search_file driver_path s)) \<le> Suc K
     \<and> (calls (snd (perform_search E config search_file driver_path s)) = Suc K \<longrightarrow>
          fst (perform_search E config search_file driver_path s)
            = Some (WebDriverException msg))"
proof (cases "\<exists>body. file_system E search_file = Regular (Inr body) \<and> isfile E driver_path
                    \<and> search_terms body \<noteq> []")
  case False
  then show ?thesis using le by (simp add: perform_search_invalid)
next
  case True
  then obtain body where valid: "file_system E search_file = Regular (Inr body)"
      "isfile E driver_path" "search_terms body \<noteq> []"
    by blast
  let ?s1 = "s\<lparr>trace := trace s @ [ReadFile search_file], completed_searches := 0\<rparr>"
  show ?thesis
  proof (cases "session_opens E config")
    case False
    from setup_driver_fails [OF False, of driver_path ?s1] obtain e s'
      where "setup_driver E config driver_path ?s1 = (Inl e, s')" "calls s' = calls ?s1"
      by blast
    then show ?thesis using le by (simp add: perform_search_valid [OF valid])
  next
    case True
    from setup_driver_opens [OF True, of driver_path s] obtain h tmo
      where keys: "map_of config ''headless_mode'' = Some h"
        "map_of config ''page_load_timeout'' = Some tmo"
      by auto
    let ?s0 = "s\<lparr>trace := trace s @ [ReadFile search_file,
                       Launch driver_path (browser_arguments h), SetTimeout tmo],
                  completed_searches := 0\<rparr>"
    have "calls ?s0 \<le> K" using le by simp
    from search_loop_fatal_last [OF wd this, of config "length (search_terms body)"
        "enumerate 1 (search_terms body)"]
    show ?thesis
      by (simp add: perform_search_opened [OF valid keys True refl refl])
  qed
qed

text \<open>
  Claim C2. With \<^verbatim>\<open>max_retries\<close> equal to \<open>R\<close>:
  \<^item> whatever the outside world does, the loop of one term calls
    \<^verbatim>\<open>single_search\<close> at most \<open>R\<close> times;
  \<^item> when the flag is set, nobody cancels and the \<open>R\<close> calls of a term all raise
    \<^verbatim>\<open>TimeoutException\<close>, the loop of that term returns after exactly \<open>R\<close> calls with
    the count of completed searches unchanged, and the \<^verbatim>\<open>for\<close> loop goes on with the
    rest of the terms from that state, entering the loop of the next term with the
    retry counter at 0;
  \<^item> when the call number \<open>K\<close> of \<^verbatim>\<open>single_search\<close> raises a
    \<^verbatim>\<open>WebDriverException\<close> that is not a timeout, a run of \<^verbatim>\<open>perform_search\<close> that
    reaches that call makes no call after it and raises that exception.
\<close>

theorem retries_and_fatal:
  assumes "map_of config ''max_retries'' = Some (PInt (int R))"
  shows "calls (snd (retry_loop E config t i n 0 s)) \<le> calls s + R
     \<and> (running s \<and> never_cancels E
          \<and> (\<forall>k. calls s \<le> k \<and> k < calls s + R \<longrightarrow>
                   (\<exists>msg. search_raises E k = Some (TimeoutException msg))) \<longrightarrow>
          fst (retry_loop E config t i n 0 s) = None
          \<and> calls (snd (retry_loop E config t i n 0 s)) = calls s + R
          \<and> completed_searches (snd (retry_loop E config t i n 0 s)) = completed_searches s
          \<and> search_loop E config n ((i, t) # rest) s
              = search_loop E config n rest (snd (retry_loop E config t i n 0 s))
          \<and> search_loop E config n ((i, t) # (j, u) # rest) s
              = (case retry_loop E config u j n 0 (snd (retry_loop E config t i n 0 s)) of
                   (None, s2) \<Rightarrow> search_loop E config n rest s2
                 | (Some e, s2) \<Rightarrow> (Some e, s2)))
     \<and> (search_raises E K = Some (WebDriverException msg) \<and> calls s \<le> K \<longrightarrow>
          calls (snd (perform_search E config search_file driver_path s)) \<le> Suc K
          \<and> (calls (snd (perform_search E config search_file driver_path s)) = Suc K \<longrightarrow>
               fst (perform_search E config search_file driver_path s)
                 = Some (WebDriverException msg)))"
proof (intro conjI impI)
  have "retry_limit config = int R" using assms by (simp add: retry_limit_def)
  then show "calls (snd (retry_loop E config t i n 0 s)) \<le> calls s + R"
    using retry_loop_calls_bound [of R config 0 E t i n s] by simp
next
  assume h: "running s \<and> never_cancels E
       \<and> (\<forall>k. calls s \<le> k \<and> k < calls s + R \<longrightarrow>
                (\<exists>msg. search_raises E k = Some (TimeoutException msg)))"
  from retry_loop_all_timeouts [OF assms, where retries = 0 and d = R and s = s
      and t = t and i = i and n = n] h
  obtain s1 where s1: "retry_loop E config t i n 0 s = (None, s1)" "running s1"
      "completed_searches s1 = completed_searches s" "calls s1 = calls s + R"
    by auto
  show "fst (retry_loop E config t i n 0 s) = None" using s1 by simp
  show "calls (snd (retry_loop E config t i n 0 s)) = calls s + R" using s1 by simp
  show "completed_searches (snd (retry_loop E config t i n 0 s)) = completed_searches s"
    using s1 by simp
  show "search_loop E config n ((i, t) # rest) s
          = search_loop E config n rest (snd (retry_loop E config t i n 0 s))"
    using s1 h by simp
  show "search_loop E config n ((i, t) # (j, u) # rest) s
          = (case retry_loop E config u j n 0 (snd (retry_loop E config t i n 0 s)) of
               (None, s2) \<Rightarrow> search_loop E config n rest s2
             | (Some e, s2) \<Rightarrow> (Some e, s2))"
    using s1 h by simp
next
  assume h: "search_raises E K = Some (WebDriverException msg) \<and> calls s \<le> K"
  then have wd: "search_raises E K = Some (WebDriverException msg)" and le: "calls s \<le> K"
    by simp_all
  from perform_search_fatal_last [OF wd le, of config search_file driver_path]
  show "calls (snd (perform_search E config search_file driver_path s)) \<le> Suc K" by simp
  assume "calls (snd (perform_search E config search_file driver_path s)) = Suc K"
  with perform_search_fatal_last [OF wd le, of config search_file driver_path]
  show "fst (perform_search E config search_file driver_path s)
          = Some (WebDriverException msg)" by simp
qed


theorem retries_and_fatal_witness:
  "map_of DEFAULT_CONFIG ''max_retries'' = Some (PInt (int 3))
   \<and> running new_runner
   \<and> never_cancels timeout_env
   \<and> (\<forall>k. \<exists>msg. search_raises timeout_env k = Some (TimeoutException msg))
   \<and> fst (retry_loop timeout_env DEFAULT_CONFIG ''cats'' 1 2 0 new_runner) = None
   \<and> calls (snd (retry_loop timeout_env DEFAULT_CONFIG ''cats'' 1 2 0 new_runner)) = 3
   \<and> completed_searches (snd (retry_loop timeout_env DEFAULT_CONFIG ''cats'' 1 2 0 new_runner)) = 0
   \<and> search_loop timeout_env DEFAULT_CONFIG 2 [(1, ''cats''), (2, ''dogs'')] new_runner
       = search_loop timeout_env DEFAULT_CONFIG 2 [(2, ''dogs'')]
           (snd (retry_loop timeout_env DEFAULT_CONFIG ''cats'' 1 2 0 new_runner))
   \<and> search_raises fatal_env 0 = Some (WebDriverException ''no such window'')
   \<and> calls new_runner \<le> 0
   \<and> calls (snd (perform_search fatal_env DEFAULT_CONFIG ''terms.txt'' ''msedgedriver.exe''
                    new_runner)) = Suc 0
   \<and> fst (perform_search fatal_env DEFAULT_CONFIG ''terms.txt'' ''msedgedriver.exe''
            new_runner) = Some (WebDriverException ''no such window'')"
proof -
  have cfg: "map_of DEFAULT_CONFIG ''max_retries'' = Some (PInt (int 3))"
    by (simp add: default_keys)
  have run: "running new_runner" "calls new_runner = 0" "completed_searches new_runner = 0"
    by (simp_all add: new_runner_def)
  have one: "calls (snd (perform_search fatal_env DEFAULT_CONFIG ''terms.txt''
                           ''msedgedriver.exe'' new_runner)) = Suc 0"
    by (simp add: perform_search_def read_searches_def example_terms setup_driver_def
        default_keys new_runner_def retry_loop.simps single_search_def update_status_def
        notify_def close_session_def log_error_def fatal_env_def isfile_def example_env_def
        example_files_def Let_def numeral_2_eq_2)
  show ?thesis
    using retries_and_fatal [OF cfg, where E = timeout_env and t = "''cats''" and i = 1
        and n = 2 and s = new_runner and rest = "[(2, ''dogs'')]" and K = 0
        and msg = "''no such window''"]
      retries_and_fatal [OF cfg, where E = fatal_env and t = "''cats''" and i = 1
        and n = 2 and s = new_runner and K = 0 and msg = "''no such window''"
        and search_file = "''terms.txt''" and driver_path = "''msedgedriver.exe''"]
      cfg run one
    by simp
qed


text \<open>
  Claim C7 fails on one exit path. \<^verbatim>\<open>setup_driver\<close> launches the browser and then
  sets the page-load timeout; when that second call raises (here the configuration file
  gives \<^verbatim>\<open>null\<close> for \<^verbatim>\<open>page_load_timeout\<close>), the handle is lost inside
  \<^verbatim>\<open>setup_driver\<close>, the local \<^verbatim>\<open>driver\<close> of \<^verbatim>\<open>perform_search\<close> is still
  \<^verbatim>\<open>None\<close>, and the \<^verbatim>\<open>finally\<close> does not quit: the run launches a browser, raises
  and reports 0 of 2 without ever closing the session.
\<close>

theorem setup_failure_leaves_session_open:
  "map_of null_timeout_config ''page_load_timeout'' = Some PNone
   \<and> perform_search null_timeout_env null_timeout_config ''terms.txt'' ''msedgedriver.exe''
         new_runner
       = (Some (Exception (''Error al configurar WebDriver: ''
                           @ ''float() argument must be a string or a real number'')),
          \<lparr>running = True,
           trace = [ReadFile ''terms.txt'',
                    Launch ''msedgedriver.exe'' [''--start-maximized'', ''--disable-extensions''],
                    Status (completed_message 0 2)],
           updates = 1, calls = 0, completed_searches = 0\<rparr>)
   \<and> Quit \<notin> set (trace (snd (perform_search null_timeout_env null_timeout_config
                                   ''terms.txt'' ''msedgedriver.exe'' new_runner)))"
proof -
  have cfg: "map_of null_timeout_config ''page_load_timeout'' = Some PNone"
    "map_of null_timeout_config ''headless_mode'' = Some (PBool False)"
    by (simp_all add: null_timeout_config_def load_document_object default_keys)
  have "perform_search null_timeout_env null_timeout_config ''terms.txt'' ''msedgedriver.exe''
          new_runner
        = (Some (Exception (''Error al configurar WebDriver: ''
                            @ ''float() argument must be a string or a real number'')),
           \<lparr>running = True,
            trace = [ReadFile ''terms.txt'',
                     Launch ''msedgedriver.exe'' [''--start-maximized'', ''--disable-extensions''],
                     Status (completed_message 0 2)],
            updates = 1, calls = 0, completed_searches = 0\<rparr>)"
    by (simp add: perform_search_def read_searches_def example_terms setup_driver_def cfg
        new_runner_def update_status_def notify_def close_session_def null_timeout_env_def
        isfile_def example_env_def example_files_def Let_def numeral_2_eq_2)
  then show ?thesis using cfg by simp
qed

end
